theory Spec2Isabelle
  imports Main "HOL-Library.Word"
begin

section \<open>Text of a document: characters and the string primitives the code calls\<close>

text \<open>
  The embedding follows \<^verbatim>\<open>src/ppt_helper.py\<close>. A text is a string of code points
  below 256, one \<^typ>\<open>char\<close> each, and the three character tables below are the ones of
  Python's \<^verbatim>\<open>str\<close> and \<^verbatim>\<open>re\<close> on these code points. Positions are offsets into a
  string, as \<^verbatim>\<open>match.start()\<close>, \<^verbatim>\<open>match.end()\<close> and \<^verbatim>\<open>str.find\<close> give them.
\<close>

definition code :: "char \<Rightarrow> nat" where
  "code c = of_char c"

text \<open>
  The word class (backslash w) of \<^verbatim>\<open>re\<close> on a \<^verbatim>\<open>str\<close> pattern: the underscore and
  every character for which \<^verbatim>\<open>str.isalnum\<close> holds. Below 256 these are the digits, the
  letters A-Z and a-z, the ordinal indicators and the micro sign, the superscripts 1, 2, 3,
  the three fractions, and the accented letters (all of 0xC0-0xFF but the multiplication
  and the division sign).
\<close>

definition is_word :: "char \<Rightarrow> bool" where
  "is_word c =
     (let n = code c
      in (48 \<le> n \<and> n \<le> 57) \<or> (65 \<le> n \<and> n \<le> 90) \<or> n = 95 \<or> (97 \<le> n \<and> n \<le> 122) \<or>
         n = 170 \<or> n = 178 \<or> n = 179 \<or> n = 181 \<or> n = 185 \<or> n = 186 \<or>
         (188 \<le> n \<and> n \<le> 190) \<or> (192 \<le> n \<and> n \<le> 214) \<or> (216 \<le> n \<and> n \<le> 246) \<or>
         (248 \<le> n \<and> n \<le> 255))"

text \<open>
  \<^verbatim>\<open>str.isspace\<close>, which \<^verbatim>\<open>str.strip()\<close> uses: tab, newline, vertical tab, form feed,
  carriage return, the four separators 0x1C-0x1F, the space, the next-line character 0x85
  and the no-break space 0xA0.
\<close>

definition is_space :: "char \<Rightarrow> bool" where
  "is_space c =
     (let n = code c
      in (9 \<le> n \<and> n \<le> 13) \<or> (28 \<le> n \<and> n \<le> 32) \<or> n = 133 \<or> n = 160)"

text \<open>
  The lower case of a character, as \<^verbatim>\<open>str.lower()\<close> and the case folding of
  \<^verbatim>\<open>re.IGNORECASE\<close> have it: A-Z and the accented capitals 0xC0-0xDE (but the
  multiplication sign 0xD7) are 32 below their small letters; every other character is
  its own lower case. Under \<^verbatim>\<open>re.IGNORECASE\<close> a literal matches a character exactly
  when the two have the same lower case.
\<close>

definition lower_char :: "char \<Rightarrow> char" where
  "lower_char c =
     (let n = code c
      in if (65 \<le> n \<and> n \<le> 90) \<or> (192 \<le> n \<and> n \<le> 214) \<or> (216 \<le> n \<and> n \<le> 222)
         then char_of (n + 32) else c)"

text \<open>\<^verbatim>\<open>str.lower()\<close>.\<close>

definition lower :: "string \<Rightarrow> string" where
  "lower s = map lower_char s"

text \<open>\<^verbatim>\<open>str.strip()\<close>: white space removed at both ends.\<close>

definition strip :: "string \<Rightarrow> string" where
  "strip s = rev (dropWhile is_space (rev (dropWhile is_space s)))"

text \<open>\<^verbatim>\<open>s.startswith(p)\<close> and \<^verbatim>\<open>s.endswith(p)\<close>.\<close>

definition startswith :: "string \<Rightarrow> string \<Rightarrow> bool" where
  "startswith s p = (take (length p) s = p)"

definition endswith :: "string \<Rightarrow> string \<Rightarrow> bool" where
  "endswith s p = (length p \<le> length s \<and> drop (length s - length p) s = p)"

text \<open>
  \<^verbatim>\<open>s.find(sub, start)\<close>: the lowest offset at or after \<open>start\<close> where \<open>sub\<close> occurs,
  \<open>None\<close> for Python's \<open>-1\<close>. The empty string is found at \<open>start\<close> itself as long as
  \<open>start\<close> is not beyond the end of \<open>s\<close>.
\<close>

fun find_in :: "string \<Rightarrow> string \<Rightarrow> nat \<Rightarrow> nat option" where
  "find_in [] sub pos = (if sub = [] then Some pos else None)"
| "find_in (x # xs) sub pos =
     (if startswith (x # xs) sub then Some pos else find_in xs sub (Suc pos))"

definition str_find :: "string \<Rightarrow> string \<Rightarrow> nat \<Rightarrow> nat option" where
  "str_find s sub start = (if length s < start then None else find_in (drop start s) sub start)"

section \<open>Regular expressions: the fragment the code builds\<close>

text \<open>
  Every pattern the code gives to \<^verbatim>\<open>re.finditer\<close> is a sequence of three kinds of item:
  a literal character (what \<^verbatim>\<open>re.escape\<close> makes of each character of a key, and what
  an escaped brace, angle or bracket of a template is), a greedy negated class
  \<^verbatim>\<open>[^c]+\<close>, and the word boundary (backslash b). The capturing parentheses of the
  templates do not change what is matched and are left out.
\<close>

datatype rx = Lit char | NotPlus char | WordB

type_synonym pattern = "rx list"

text \<open>\<^verbatim>\<open>re.escape(s)\<close>: a pattern that matches \<open>s\<close> character by character.\<close>

definition re_escape :: "string \<Rightarrow> pattern" where
  "re_escape s = map Lit s"

text \<open>
  \<^verbatim>\<open>pattern.replace(old, new)\<close> where \<open>old\<close> is the text of one item: every occurrence of
  that item is replaced by the items of \<open>new\<close>; a pattern without the item is returned
  as it is.
\<close>

fun rx_replace :: "pattern \<Rightarrow> rx \<Rightarrow> pattern \<Rightarrow> pattern" where
  "rx_replace [] old new = []"
| "rx_replace (i # p) old new =
     (if i = old then new @ rx_replace p old new else i # rx_replace p old new)"

text \<open>Comparison of a literal with a character of the text, under \<^verbatim>\<open>re.IGNORECASE\<close> or not.\<close>

definition chr_eq :: "bool \<Rightarrow> char \<Rightarrow> char \<Rightarrow> bool" where
  "chr_eq ignorecase c x = (if ignorecase then lower_char c = lower_char x else c = x)"

definition word_at :: "char option \<Rightarrow> bool" where
  "word_at co = (case co of None \<Rightarrow> False | Some c \<Rightarrow> is_word c)"

definition first_char :: "string \<Rightarrow> char option" where
  "first_char s = (case s of [] \<Rightarrow> None | x # _ \<Rightarrow> Some x)"

text \<open>
  Matching at one position, as the backtracking matcher does: \<open>rx_match ic p prev s\<close> is the
  length of the match of \<open>p\<close> at the start of \<open>s\<close>, where \<open>prev\<close> is the character before
  it. A class \<^verbatim>\<open>[^c]+\<close> takes as many characters as it can and gives them back one at a
  time when the rest of the pattern fails.
\<close>

fun rx_match :: "bool \<Rightarrow> pattern \<Rightarrow> char option \<Rightarrow> string \<Rightarrow> nat option"
  and rx_plus :: "bool \<Rightarrow> char \<Rightarrow> pattern \<Rightarrow> char option \<Rightarrow> string \<Rightarrow> nat option" where
  "rx_match ic [] prev s = Some 0"
| "rx_match ic (Lit c # p) prev [] = None"
| "rx_match ic (Lit c # p) prev (x # xs) =
     (if chr_eq ic c x then map_option Suc (rx_match ic p (Some x) xs) else None)"
| "rx_match ic (WordB # p) prev s =
     (if word_at prev \<noteq> word_at (first_char s) then rx_match ic p prev s else None)"
| "rx_match ic (NotPlus c # p) prev s = rx_plus ic c p prev s"
| "rx_plus ic c p prev [] = None"
| "rx_plus ic c p prev (x # xs) =
     (if x = c then None
      else (case rx_plus ic c p (Some x) xs of
              Some n \<Rightarrow> Some (Suc n)
            | None \<Rightarrow> map_option Suc (rx_match ic p (Some x) xs)))"

text \<open>
  \<^verbatim>\<open>re.finditer(pattern, text)\<close>, as the list of \<open>(start, end)\<close> of its matches: the
  text is scanned from the left, and after a match the scan goes on at its end. \<open>skip\<close>
  counts the characters of the last match that are still to be passed over. (A pattern
  of the code never matches the empty string; the scan then moves on by one character.)
\<close>

fun scan :: "bool \<Rightarrow> pattern \<Rightarrow> char option \<Rightarrow> string \<Rightarrow> nat \<Rightarrow> nat \<Rightarrow> (nat \<times> nat) list" where
  "scan ic p prev [] pos skip = []"
| "scan ic p prev (x # xs) pos skip =
     (if 0 < skip then scan ic p (Some x) xs (Suc pos) (skip - 1)
      else (case rx_match ic p prev (x # xs) of
              None \<Rightarrow> scan ic p (Some x) xs (Suc pos) 0
            | Some n \<Rightarrow> (pos, pos + n) # scan ic p (Some x) xs (Suc pos) (n - 1)))"

definition finditer :: "bool \<Rightarrow> pattern \<Rightarrow> string \<Rightarrow> (nat \<times> nat) list" where
  "finditer ic p s = scan ic p None s 0 0"

section \<open>The pattern expansion of \<^verbatim>\<open>replace_in_text\<close>\<close>

text \<open>
  The three placeholder templates of \<^verbatim>\<open>replace_text\<close> (lines 165-169), each with the
  function that writes a key in that style: double braces around \<^verbatim>\<open>[^}]+\<close>, angles
  around \<^verbatim>\<open>[^>]+\<close>, brackets around \<^verbatim>\<open>[^\]]+\<close>.
\<close>

definition placeholder_patterns :: "(pattern \<times> (string \<Rightarrow> string)) list" where
  "placeholder_patterns =
     [([Lit CHR ''{'', Lit CHR ''{'', NotPlus CHR ''}'', Lit CHR ''}'', Lit CHR ''}''],
        \<lambda>x. ''{{'' @ x @ ''}}''),
      ([Lit CHR ''<'', NotPlus CHR ''>'', Lit CHR ''>''],
        \<lambda>x. ''<'' @ x @ ''>''),
      ([Lit CHR ''['', NotPlus CHR '']'', Lit CHR '']''],
        \<lambda>x. ''['' @ x @ '']'')]"

text \<open>
  Lines 190-192: the plain pattern, then each template after
  \<^verbatim>\<open>pattern.replace(r'[^}]+', re.escape(old_text))\<close>, paired with the key written in
  that style.
\<close>

definition patterns :: "string \<Rightarrow> (pattern \<times> string) list" where
  "patterns old_text =
     (re_escape old_text, old_text) #
     map (\<lambda>(pattern, format_text).
            (rx_replace pattern (NotPlus CHR ''}'') (re_escape old_text), format_text old_text))
         placeholder_patterns"

definition delimiters :: "string list" where
  "delimiters = [''<'', ''{'', ''['', ''>'', ''}'', '']'']"

text \<open>Lines 198-201: the word boundaries are put around the plain pattern only, and only
  when the key neither starts nor ends with a delimiter character.\<close>

definition bounded :: "bool \<Rightarrow> string \<Rightarrow> string \<Rightarrow> pattern \<Rightarrow> pattern" where
  "bounded whole_word original_text old_text pattern =
     (if whole_word \<and> original_text = old_text \<and>
         \<not> list_ex (\<lambda>c. startswith original_text c \<or> endswith original_text c) delimiters
      then [WordB] @ pattern @ [WordB] else pattern)"

section \<open>Runs and the rewrite of one pattern\<close>

text \<open>
  A run object of the \<^verbatim>\<open>runs\<close> sequence: its text, its font (the style handle, never
  looked into) and whether its element is still in the paragraph. The sequence itself is
  fixed during \<^verbatim>\<open>replace_in_text\<close>; a removed run stays in it, out of the paragraph.
\<close>

record 'f run =
  rtext :: string
  font :: 'f
  in_tree :: bool

datatype exn = AttributeError | PackageNotFoundError

text \<open>Lines 236-243: the text a run gets from the matches that overlap
  \<open>[run_start, run_end)\<close>, one copy of the run's text per overlapping match.\<close>

fun splice :: "string \<Rightarrow> nat \<Rightarrow> nat \<Rightarrow> string \<Rightarrow> (nat \<times> nat) list \<Rightarrow> string" where
  "splice run_text run_start run_end new_text_value [] = []"
| "splice run_text run_start run_end new_text_value ((match_start, match_end) # matches) =
     (if run_end \<le> match_start \<or> match_end \<le> run_start
      then splice run_text run_start run_end new_text_value matches
      else (let rel_start = match_start - run_start;
                rel_end = min (length run_text) (match_end - run_start)
            in take rel_start run_text @ new_text_value @ drop rel_end run_text @
               splice run_text run_start run_end new_text_value matches))"

text \<open>Lines 224-248: the new text of every run. A run whose text is not found in
  \<open>full_text\<close> from \<open>current_pos\<close> on keeps its text; so does a run whose new text
  would be empty.\<close>

fun new_runs_text ::
  "string \<Rightarrow> (nat \<times> nat) list \<Rightarrow> string \<Rightarrow> 'f run list \<Rightarrow> nat \<Rightarrow> (string \<times> 'f) list" where
  "new_runs_text full_text matches new_text_value [] current_pos = []"
| "new_runs_text full_text matches new_text_value (run # runs) current_pos =
     (case str_find full_text (rtext run) current_pos of
        None \<Rightarrow> (rtext run, font run) #
                 new_runs_text full_text matches new_text_value runs current_pos
      | Some run_start \<Rightarrow>
          (let run_end = run_start + length (rtext run);
               new_run_text = splice (rtext run) run_start run_end new_text_value matches
           in ((if new_run_text = [] then rtext run else new_run_text), font run) #
              new_runs_text full_text matches new_text_value runs run_end))"

text \<open>
  The setter of \<^verbatim>\<open>run.text\<close> (python-pptx): the string is stored with every control
  character below 0x20, other than the tab and the newline, written as \<^verbatim>\<open>_xHHHH_\<close>,
  its code in four capital hexadecimal digits. The getter gives back what was stored.
\<close>

definition hex_digit :: "nat \<Rightarrow> char" where
  "hex_digit n = (if n < 10 then char_of (48 + n) else char_of (55 + n))"

definition escape_ctrl_char :: "char \<Rightarrow> string" where
  "escape_ctrl_char c =
     (let n = code c
      in if n \<le> 8 \<or> (11 \<le> n \<and> n \<le> 31)
         then ''_x00'' @ [hex_digit (n div 16), hex_digit (n mod 16)] @ ''_''
         else [c])"

definition escape_ctrl_chars :: "string \<Rightarrow> string" where
  "escape_ctrl_chars s = concat (map escape_ctrl_char s)"

text \<open>Lines 251-255: the texts are written back by position.\<close>

fun update_runs :: "'f run list \<Rightarrow> (string \<times> 'f) list \<Rightarrow> 'f run list" where
  "update_runs [] new = []"
| "update_runs (run # runs) [] =
     run\<lparr>rtext := escape_ctrl_chars []\<rparr> # update_runs runs []"
| "update_runs (run # runs) (n # new) =
     run\<lparr>rtext := escape_ctrl_chars (fst n)\<rparr> # update_runs runs new"

text \<open>
  Lines 258-260, over the runs in the order given: a run with empty text is taken out of
  its parent. A run that was taken out before has no parent, and
  \<^verbatim>\<open>run._r.getparent().remove\<close> raises \<^verbatim>\<open>AttributeError\<close> on \<^verbatim>\<open>None\<close>.
\<close>

fun remove_runs :: "'f run list \<Rightarrow> exn + 'f run list" where
  "remove_runs [] = Inr []"
| "remove_runs (run # runs) =
     (if rtext run = [] then
        (if in_tree run then
           (case remove_runs runs of
              Inl e \<Rightarrow> Inl e
            | Inr runs' \<Rightarrow> Inr (run\<lparr>in_tree := False\<rparr> # runs'))
         else Inl AttributeError)
      else (case remove_runs runs of
              Inl e \<Rightarrow> Inl e
            | Inr runs' \<Rightarrow> Inr (run # runs')))"

text \<open>The loop of line 258 goes over \<^verbatim>\<open>runs[::-1]\<close>.\<close>

definition remove_empty_runs :: "'f run list \<Rightarrow> exn + 'f run list" where
  "remove_empty_runs runs =
     (case remove_runs (rev runs) of Inl e \<Rightarrow> Inl e | Inr runs' \<Rightarrow> Inr (rev runs'))"

text \<open>Lines 224-260: what one matching pattern does to the runs.\<close>

definition rewrite ::
  "string \<Rightarrow> (nat \<times> nat) list \<Rightarrow> string \<Rightarrow> 'f run list \<Rightarrow> exn + 'f run list" where
  "rewrite full_text matches new_text_value runs =
     remove_empty_runs (update_runs runs (new_runs_text full_text matches new_text_value runs 0))"

section \<open>\<^verbatim>\<open>replace_in_text\<close>\<close>

text \<open>
  A value of the replacement dictionary is a string or something else; the dictionary is
  the list of its items in insertion order. The state of the two loops is
  \<open>(updated, total_count, runs)\<close>.
\<close>

datatype pyval = PStr string | PNotStr

text \<open>Lines 196-263, the loop over the patterns of one key; the \<^verbatim>\<open>break\<close> of line 263
  leaves this loop.\<close>

fun pattern_loop ::
  "string \<Rightarrow> string \<Rightarrow> string \<Rightarrow> bool \<Rightarrow> bool \<Rightarrow> bool \<Rightarrow> (pattern \<times> string) list \<Rightarrow>
   bool \<times> nat \<times> 'f run list \<Rightarrow> exn + (bool \<times> nat \<times> 'f run list)" where
  "pattern_loop full_text old_text new_text_value replace_all match_case whole_word [] st = Inr st"
| "pattern_loop full_text old_text new_text_value replace_all match_case whole_word
     ((pattern, original_text) # rest) (updated, total_count, runs) =
     (let matches = finditer (\<not> match_case)
                      (bounded whole_word original_text old_text pattern) full_text
      in if matches = []
         then pattern_loop full_text old_text new_text_value replace_all match_case whole_word
                rest (updated, total_count, runs)
         else (let matches' = (if replace_all then matches else take 1 matches);
                   count = (if replace_all then length matches
                            else if matches' = [] then 0 else 1)
               in if count = 0
                  then pattern_loop full_text old_text new_text_value replace_all match_case
                         whole_word rest (updated, total_count, runs)
                  else (case rewrite full_text matches' new_text_value runs of
                          Inl e \<Rightarrow> Inl e
                        | Inr runs' \<Rightarrow>
                            if \<not> replace_all then Inr (True, total_count + count, runs')
                            else pattern_loop full_text old_text new_text_value replace_all
                                   match_case whole_word rest
                                   (True, total_count + count, runs'))))"

text \<open>Lines 176-263, the loop over the items of the dictionary.\<close>

fun key_loop ::
  "string \<Rightarrow> bool \<Rightarrow> bool \<Rightarrow> bool \<Rightarrow> (pyval \<times> pyval) list \<Rightarrow>
   bool \<times> nat \<times> 'f run list \<Rightarrow> exn + (bool \<times> nat \<times> 'f run list)" where
  "key_loop full_text replace_all match_case whole_word [] st = Inr st"
| "key_loop full_text replace_all match_case whole_word ((PStr k, PStr new_text_value) # items) st =
     (let old_text = strip k
      in if old_text = [] then key_loop full_text replace_all match_case whole_word items st
         else (case pattern_loop full_text old_text new_text_value replace_all match_case
                      whole_word (patterns old_text) st of
                 Inl e \<Rightarrow> Inl e
               | Inr st' \<Rightarrow> key_loop full_text replace_all match_case whole_word items st'))"
| "key_loop full_text replace_all match_case whole_word (_ # items) st =
     key_loop full_text replace_all match_case whole_word items st"

definition replace_in_text ::
  "string \<Rightarrow> 'f run list \<Rightarrow> (pyval \<times> pyval) list \<Rightarrow> bool \<Rightarrow> bool \<Rightarrow> bool \<Rightarrow>
   exn + (bool \<times> nat \<times> 'f run list)" where
  "replace_in_text full_text runs replace_dict replace_all match_case whole_word =
     key_loop full_text replace_all match_case whole_word replace_dict (False, 0, runs)"

section \<open>The document and \<^verbatim>\<open>replace_text\<close>\<close>

text \<open>
  A paragraph is the sequence of its fragments, each a text and a style handle. A shape
  has the paragraphs of its text frame when \<^verbatim>\<open>has_text_frame\<close> holds, and the
  paragraphs of its chart title when it has a chart whose title has a text frame. A
  presentation is the list of its slides, a slide the list of its shapes.
\<close>

type_synonym 'f para = "(string \<times> 'f) list"

record 'f shape =
  text_frame :: "'f para list option"
  chart_title :: "'f para list option"

type_synonym 'f slide = "'f shape list"

type_synonym 'f presentation = "'f slide list"

text \<open>\<^verbatim>\<open>paragraph.runs\<close>, and the fragments the paragraph has once the runs were
  rewritten: those still in it.\<close>

definition runs_of :: "'f para \<Rightarrow> 'f run list" where
  "runs_of paragraph = map (\<lambda>(t, f). \<lparr>rtext = t, font = f, in_tree = True\<rparr>) paragraph"

definition paragraph_of :: "'f run list \<Rightarrow> 'f para" where
  "paragraph_of runs = map (\<lambda>run. (rtext run, font run)) (filter in_tree runs)"

text \<open>\<^verbatim>\<open>"".join(run.text for run in paragraph.runs)\<close>.\<close>

definition full_text_of :: "'f para \<Rightarrow> string" where
  "full_text_of paragraph = concat (map fst paragraph)"

text \<open>
  A loop of the walk over a list: each step gets the running total and gives back whether
  \<^verbatim>\<open>replace_text\<close> returns at once, the new total and the element as it is now.
\<close>

fun walk_list ::
  "('a \<Rightarrow> nat \<Rightarrow> exn + (bool \<times> nat \<times> 'a)) \<Rightarrow> 'a list \<Rightarrow> nat \<Rightarrow> exn + (bool \<times> nat \<times> 'a list)" where
  "walk_list f [] acc = Inr (False, acc, [])"
| "walk_list f (x # xs) acc =
     (case f x acc of
        Inl e \<Rightarrow> Inl e
      | Inr (ret, acc', x') \<Rightarrow>
          if ret then Inr (True, acc', x' # xs)
          else (case walk_list f xs acc' of
                  Inl e \<Rightarrow> Inl e
                | Inr (ret', acc'', xs') \<Rightarrow> Inr (ret', acc'', x' # xs')))"

text \<open>Lines 273-284 and 291-302: one paragraph. A paragraph without runs is skipped.\<close>

definition walk_paragraph ::
  "(pyval \<times> pyval) list \<Rightarrow> bool \<Rightarrow> bool \<Rightarrow> bool \<Rightarrow> 'f para \<Rightarrow> nat \<Rightarrow>
   exn + (bool \<times> nat \<times> 'f para)" where
  "walk_paragraph replace_dict replace_all match_case whole_word paragraph total_replacements =
     (if paragraph = [] then Inr (False, total_replacements, paragraph)
      else (case replace_in_text (full_text_of paragraph) (runs_of paragraph) replace_dict
                   replace_all match_case whole_word of
              Inl e \<Rightarrow> Inl e
            | Inr (updated, count, runs') \<Rightarrow>
                Inr (updated \<and> \<not> replace_all \<and> 0 < total_replacements + count,
                     total_replacements + count, paragraph_of runs')))"

text \<open>Lines 269-302: one shape, its text frame first and its chart title after.\<close>

definition walk_shape ::
  "(pyval \<times> pyval) list \<Rightarrow> bool \<Rightarrow> bool \<Rightarrow> bool \<Rightarrow> 'f shape \<Rightarrow> nat \<Rightarrow>
   exn + (bool \<times> nat \<times> 'f shape)" where
  "walk_shape replace_dict replace_all match_case whole_word shape acc =
     (case (case text_frame shape of
              None \<Rightarrow> Inr (False, acc, None)
            | Some ps \<Rightarrow>
                (case walk_list (walk_paragraph replace_dict replace_all match_case whole_word)
                        ps acc of
                   Inl e \<Rightarrow> Inl e
                 | Inr (ret, acc', ps') \<Rightarrow> Inr (ret, acc', Some ps'))) of
        Inl e \<Rightarrow> Inl e
      | Inr (ret, acc', tf') \<Rightarrow>
          if ret then Inr (True, acc', shape\<lparr>text_frame := tf'\<rparr>)
          else (case chart_title shape of
                  None \<Rightarrow> Inr (False, acc', shape\<lparr>text_frame := tf'\<rparr>)
                | Some ps \<Rightarrow>
                    (case walk_list (walk_paragraph replace_dict replace_all match_case whole_word)
                            ps acc' of
                       Inl e \<Rightarrow> Inl e
                     | Inr (ret', acc'', ps') \<Rightarrow>
                         Inr (ret', acc'', shape\<lparr>text_frame := tf', chart_title := Some ps'\<rparr>))))"

text \<open>Lines 267-302: the slides and the shapes of each.\<close>

definition walk_slides ::
  "(pyval \<times> pyval) list \<Rightarrow> bool \<Rightarrow> bool \<Rightarrow> bool \<Rightarrow> 'f presentation \<Rightarrow> nat \<Rightarrow>
   exn + (bool \<times> nat \<times> 'f presentation)" where
  "walk_slides replace_dict replace_all match_case whole_word presentation acc =
     walk_list (walk_list (walk_shape replace_dict replace_all match_case whole_word))
       presentation acc"

text \<open>
  The files \<^verbatim>\<open>replace_text\<close> sees. A path is the sequence of its components
  (\<^verbatim>\<open>Path.parts\<close>); a file holds a presentation or something
  \<^verbatim>\<open>Presentation(file_path)\<close> cannot load. The events record what was done to the
  files: a document loaded, a document saved.
\<close>

type_synonym path = "string list"

datatype 'f content = Pptx "'f presentation" | NotPptx

type_synonym 'f files = "path \<Rightarrow> 'f content option"

datatype event = Loaded path | Saved path

text \<open>\<^verbatim>\<open>Path.suffix\<close>: the final component from its last dot on, when that dot is neither
  its first nor its last character.\<close>

definition rfind :: "string \<Rightarrow> char \<Rightarrow> nat option" where
  "rfind s c =
     (if c \<in> set s then Some (length s - 1 - length (takeWhile (\<lambda>x. x \<noteq> c) (rev s)))
      else None)"

definition suffix :: "path \<Rightarrow> string" where
  "suffix p =
     (let name = (if p = [] then [] else last p)
      in case rfind name CHR ''.'' of
           None \<Rightarrow> []
         | Some i \<Rightarrow> if 0 < i \<and> Suc i < length name then drop i name else [])"

text \<open>
  \<^verbatim>\<open>replace_text\<close> (lines 136-310): the result \<open>(success, total_replacements)\<close>, the
  files afterwards and the events. Any exception ends in the handler of line 308, which
  returns \<open>(False, 0)\<close>; nothing was saved then. Both the return of line 284 or 302 and
  the one of line 306 save the presentation first.
\<close>

definition replace_text ::
  "'f files \<Rightarrow> path \<Rightarrow> (pyval \<times> pyval) list \<Rightarrow> bool \<Rightarrow> bool \<Rightarrow> bool \<Rightarrow>
   (bool \<times> nat) \<times> 'f files \<times> event list" where
  "replace_text files file_path replace_dict replace_all match_case whole_word =
     (if files file_path = None \<or> lower (suffix file_path) \<notin> set [''.pptx'', ''.ppt'']
      then ((False, 0), files, [])
      else if replace_dict = [] then ((False, 0), files, [])
      else (case files file_path of
              Some (Pptx presentation) \<Rightarrow>
                (case walk_slides replace_dict replace_all match_case whole_word presentation 0 of
                   Inl e \<Rightarrow> ((False, 0), files, [Loaded file_path])
                 | Inr (ret, total_replacements, presentation') \<Rightarrow>
                     ((True, total_replacements), files(file_path \<mapsto> Pptx presentation'),
                      [Loaded file_path, Saved file_path]))
            | _ \<Rightarrow> ((False, 0), files, [Loaded file_path])))"

section \<open>The container: entries, \<^verbatim>\<open>extract_embedded_excel_files\<close>\<close>

text \<open>
  A zip container is the list of its entries in the order of its directory
  (\<^verbatim>\<open>infolist()\<close>). An entry is its \<^verbatim>\<open>ZipInfo\<close>, as \<^verbatim>\<open>zipfile\<close> reads it from the
  container (the name and the entry-level metadata that \<^verbatim>\<open>writestr\<close> takes from a
  \<^verbatim>\<open>ZipInfo\<close>: time stamp, compression, comment, extra field, external attributes),
  and its payload. Two entries may have the same name.
\<close>

type_synonym bytes = "8 word list"

datatype compression = ZIP_STORED | ZIP_DEFLATED | ZIP_BZIP2 | ZIP_LZMA

type_synonym date_time = "nat \<times> nat \<times> nat \<times> nat \<times> nat \<times> nat"

record zipinfo =
  filename :: string
  date_time :: date_time
  compress_type :: compression
  comment :: bytes
  extra :: bytes
  external_attr :: nat

record entry =
  info :: zipinfo
  payload :: bytes

datatype zfile = Archive "entry list" | NotArchive

type_synonym disk = "string \<Rightarrow> zfile option"

datatype zip_error = BadZipFile | KeyError | OSError

text \<open>\<^verbatim>\<open>namelist()\<close>.\<close>

definition namelist :: "entry list \<Rightarrow> string list" where
  "namelist es = map (\<lambda>e. filename (info e)) es"

text \<open>\<^verbatim>\<open>zip_file.read(name)\<close>: the payload of the entry the name stands for, which is
  the last entry of that name in the directory; \<^verbatim>\<open>KeyError\<close> when there is none.\<close>

definition zip_read :: "entry list \<Rightarrow> string \<Rightarrow> zip_error + bytes" where
  "zip_read es name =
     (case filter (\<lambda>e. filename (info e) = name) es of
        [] \<Rightarrow> Inl KeyError
      | e # es' \<Rightarrow> Inr (payload (last (e # es'))))"

text \<open>Line 328, the selector of the embedded spreadsheets.\<close>

definition selected :: "string \<Rightarrow> bool" where
  "selected f = (startswith f ''ppt/embeddings/'' \<and> endswith f ''.xlsx'')"

text \<open>Lines 325-329: the dictionary comprehension, over the names in order.\<close>

fun extract_loop ::
  "entry list \<Rightarrow> string list \<Rightarrow> (string \<Rightarrow> bytes option) \<Rightarrow> zip_error + (string \<Rightarrow> bytes option)" where
  "extract_loop es [] d = Inr d"
| "extract_loop es (f # fs) d =
     (if selected f then
        (case zip_read es f of
           Inl e \<Rightarrow> Inl e
         | Inr b \<Rightarrow> extract_loop es fs (d(f \<mapsto> b)))
      else extract_loop es fs d)"

definition extract_embedded_excel_files ::
  "disk \<Rightarrow> string \<Rightarrow> zip_error + (string \<Rightarrow> bytes option)" where
  "extract_embedded_excel_files disk pptx_path =
     (case disk pptx_path of
        Some (Archive es) \<Rightarrow> extract_loop es (namelist es) Map.empty
      | Some NotArchive \<Rightarrow> Inl BadZipFile
      | None \<Rightarrow> Inl OSError)"

section \<open>\<^verbatim>\<open>replace_embedded_excel_files\<close>\<close>

text \<open>
  A container stores the time of an entry in the DOS format, the seconds halved
  (\<^verbatim>\<open>dt[5] // 2\<close> in \<^verbatim>\<open>ZipInfo.FileHeader\<close>), and gives back twice that: what is read
  from a written entry is the time with the seconds rounded down to an even number.
\<close>

definition dos_time :: "date_time \<Rightarrow> date_time" where
  "dos_time dt = (case dt of (y, mo, d, h, mi, sec) \<Rightarrow> (y, mo, d, h, mi, 2 * (sec div 2)))"

text \<open>
  \<^verbatim>\<open>dst_zip.writestr(name, data)\<close> with a name makes a new \<^verbatim>\<open>ZipInfo\<close>: the name, the
  time of the call, the compression of \<open>dst_zip\<close> (\<^verbatim>\<open>ZIP_DEFLATED\<close>, line 341), no
  comment, no extra field, and the attributes \<^verbatim>\<open>0o600 << 16\<close> (for a name ending in a
  slash \<^verbatim>\<open>0o40775 << 16 | 0x10\<close>). \<open>new_zipinfo\<close> is that entry as the container
  holds it.
\<close>

definition new_zipinfo :: "string \<Rightarrow> date_time \<Rightarrow> zipinfo" where
  "new_zipinfo name now =
     \<lparr>filename = name, date_time = dos_time now, compress_type = ZIP_DEFLATED, comment = [],
      extra = [],
      external_attr = (if endswith name ''/'' then 1107099664 else 25165824)\<rparr>"

text \<open>
  \<^verbatim>\<open>dst_zip.writestr(item, data)\<close> with the \<^verbatim>\<open>ZipInfo\<close> of the source writes that
  \<^verbatim>\<open>ZipInfo\<close>, but \<^verbatim>\<open>_open_to_write\<close> first sets external attributes that are 0 to
  \<^verbatim>\<open>0o600 << 16\<close>. \<open>copied_info\<close> is the entry as the container holds it.
\<close>

definition copied_info :: "zipinfo \<Rightarrow> zipinfo" where
  "copied_info zi =
     zi\<lparr>date_time := dos_time (date_time zi),
        external_attr := (if external_attr zi = 0 then 25165824 else external_attr zi)\<rparr>"

text \<open>
  What can go wrong outside the data: each call into \<^verbatim>\<open>zipfile\<close>, \<^verbatim>\<open>shutil\<close> or
  \<^verbatim>\<open>os\<close> is one or more steps, and \<open>faults\<close> says which steps raise.
\<close>

datatype step =
  OpenSrc | OpenDst | Member nat | CloseDst | Rename | CopyOpen | CopyWrite | CopyStat | Unlink |
  Remove

type_synonym faults = "step \<Rightarrow> bool"

definition no_faults :: faults where
  "no_faults s = False"

text \<open>
  Lines 342-349: the loop over \<^verbatim>\<open>src_zip.infolist()\<close>; \<open>i\<close> counts the items done
  and \<open>dst\<close> is what was written so far. An exception comes with what the temporary
  file holds when the \<^verbatim>\<open>with\<close> block is left: closing \<open>dst_zip\<close> makes a container
  of the entries written before the failure.
\<close>

fun write_members ::
  "faults \<Rightarrow> date_time \<Rightarrow> entry list \<Rightarrow> (string \<Rightarrow> bytes option) \<Rightarrow> entry list \<Rightarrow> nat \<Rightarrow>
   entry list \<Rightarrow> (zip_error \<times> zfile) + entry list" where
  "write_members faults now src updated_files [] i dst = Inr dst"
| "write_members faults now src updated_files (item # items) i dst =
     (if faults (Member i) then Inl (OSError, Archive dst)
      else (case updated_files (filename (info item)) of
              Some b \<Rightarrow>
                write_members faults now src updated_files items (Suc i)
                  (dst @ [\<lparr>info = new_zipinfo (filename (info item)) now, payload = b\<rparr>])
            | None \<Rightarrow>
                (case zip_read src (filename (info item)) of
                   Inl e \<Rightarrow> Inl (e, Archive dst)
                 | Inr data \<Rightarrow>
                     write_members faults now src updated_files items (Suc i)
                       (dst @ [\<lparr>info = copied_info (info item), payload = data\<rparr>]))))"

text \<open>
  Lines 340-349: the two \<^verbatim>\<open>with\<close> blocks. The result is the container written to
  the temporary file, or the exception with what the temporary file holds then: still
  what \<^verbatim>\<open>mkstemp\<close> made when nothing was written, no container when closing failed.
\<close>

definition rebuild ::
  "faults \<Rightarrow> date_time \<Rightarrow> disk \<Rightarrow> string \<Rightarrow> (string \<Rightarrow> bytes option) \<Rightarrow>
   (zip_error \<times> zfile) + entry list" where
  "rebuild faults now disk pptx_path updated_files =
     (if faults OpenSrc then Inl (OSError, NotArchive)
      else (case disk pptx_path of
              None \<Rightarrow> Inl (OSError, NotArchive)
            | Some NotArchive \<Rightarrow> Inl (BadZipFile, NotArchive)
            | Some (Archive src) \<Rightarrow>
                if faults OpenDst then Inl (OSError, NotArchive)
                else (case write_members faults now src updated_files src 0 [] of
                        Inl e \<Rightarrow> Inl e
                      | Inr dst \<Rightarrow>
                          if faults CloseDst then Inl (OSError, NotArchive) else Inr dst)))"

text \<open>
  \<^verbatim>\<open>shutil.move(src, dst)\<close> for two files: \<^verbatim>\<open>os.rename\<close>, which puts \<open>src\<close> in the
  place of \<open>dst\<close> in one step; when that raises \<^verbatim>\<open>OSError\<close> (another file system; on
  Windows, a destination that exists), \<^verbatim>\<open>copy2\<close> and then \<^verbatim>\<open>os.unlink(src)\<close>.
  \<^verbatim>\<open>copy2\<close> opens \<open>dst\<close> for writing, which empties it, copies the bytes and then the
  file's status. A copy that fails while writing leaves in \<open>dst\<close> a part of the bytes,
  which is no container. An exception comes with the disk as the failed move left it.
\<close>

definition shutil_move :: "faults \<Rightarrow> disk \<Rightarrow> string \<Rightarrow> string \<Rightarrow> (zip_error \<times> disk) + disk" where
  "shutil_move faults disk src dst =
     (if \<not> faults Rename then Inr (disk(dst := disk src, src := None))
      else if faults CopyOpen then Inl (OSError, disk)
      else if faults CopyWrite then Inl (OSError, disk(dst \<mapsto> NotArchive))
      else if faults CopyStat \<or> faults Unlink then Inl (OSError, disk(dst := disk src))
      else Inr (disk(dst := disk src, src := None)))"

text \<open>
  How a call ends: the \<^verbatim>\<open>try\<close> block came to its end, or the handler of line 355
  caught an exception, or \<^verbatim>\<open>os.remove\<close> in the handler raised and the exception left
  the function.
\<close>

datatype outcome = Done | Caught | Escaped

text \<open>Lines 355-358: the handler, with the states of the disk it adds.\<close>

definition handler :: "faults \<Rightarrow> string \<Rightarrow> disk \<Rightarrow> outcome \<times> disk list" where
  "handler faults temp_path disk =
     (if disk temp_path = None then (Caught, [])
      else if faults Remove then (Escaped, [])
      else (Caught, [disk(temp_path := None)]))"

text \<open>
  \<^verbatim>\<open>replace_embedded_excel_files\<close> (lines 331-358). \<open>temp_path\<close> is the name
  \<^verbatim>\<open>mkstemp\<close> made. The result is how the call ended and the states of the disk one
  after the other: after \<^verbatim>\<open>mkstemp\<close> (the temporary file is there, and no container
  yet), after the \<^verbatim>\<open>with\<close> blocks (the temporary file written as far as they got),
  after \<^verbatim>\<open>shutil.move\<close> when it was reached, and after \<^verbatim>\<open>os.remove\<close> when the
  handler removed the temporary file.
\<close>

definition replace_embedded_excel_files ::
  "faults \<Rightarrow> date_time \<Rightarrow> string \<Rightarrow> disk \<Rightarrow> string \<Rightarrow> (string \<Rightarrow> bytes option) \<Rightarrow>
   outcome \<times> disk list" where
  "replace_embedded_excel_files faults now temp_path disk pptx_path updated_files =
     (let disk1 = disk(temp_path \<mapsto> NotArchive)
      in case rebuild faults now disk1 pptx_path updated_files of
           Inl (e, partial) \<Rightarrow>
             (let disk2 = disk1(temp_path \<mapsto> partial)
              in case handler faults temp_path disk2 of
                   (out, rest) \<Rightarrow> (out, [disk1, disk2] @ rest))
         | Inr dst \<Rightarrow>
             (let disk2 = disk1(temp_path \<mapsto> Archive dst)
              in case shutil_move faults disk2 temp_path pptx_path of
                   Inr disk3 \<Rightarrow> (Done, [disk1, disk2, disk3])
                 | Inl (e, disk3) \<Rightarrow>
                     (case handler faults temp_path disk3 of
                        (out, rest) \<Rightarrow> (out, [disk1, disk2, disk3] @ rest))))"

section \<open>What the claims count\<close>

text \<open>
  The number of matches each of the four patterns of a key has in a text, under the
  flags the code gives \<^verbatim>\<open>re.finditer\<close>.
\<close>


definition match_counts :: "bool \<Rightarrow> bool \<Rightarrow> string \<Rightarrow> string \<Rightarrow> nat list" where
  "match_counts match_case whole_word full_text old_text =
     map (\<lambda>(pattern, original_text).
            length (finditer (\<not> match_case)
                      (bounded whole_word original_text old_text pattern) full_text))
         (patterns old_text)"

text \<open>
  The sum of these numbers over the items of the dictionary that \<^verbatim>\<open>replace_in_text\<close>
  does not skip: both sides strings, the key not blank.
\<close>

fun sum_of_matches :: "bool \<Rightarrow> bool \<Rightarrow> string \<Rightarrow> (pyval \<times> pyval) list \<Rightarrow> nat" where
  "sum_of_matches match_case whole_word full_text [] = 0"
| "sum_of_matches match_case whole_word full_text ((PStr k, PStr v) # items) =
     (if strip k = [] then 0 else sum_list (match_counts match_case whole_word full_text (strip k)))
     + sum_of_matches match_case whole_word full_text items"
| "sum_of_matches match_case whole_word full_text (_ # items) =
     sum_of_matches match_case whole_word full_text items"

text \<open>The paragraphs of a presentation in the order of the walk, and the sum over them.\<close>

definition shape_paragraphs :: "'f shape \<Rightarrow> 'f para list" where
  "shape_paragraphs sh =
     (case text_frame sh of None \<Rightarrow> [] | Some ps \<Rightarrow> ps) @
     (case chart_title sh of None \<Rightarrow> [] | Some ps \<Rightarrow> ps)"

definition paragraphs :: "'f presentation \<Rightarrow> 'f para list" where
  "paragraphs presentation = concat (map (\<lambda>slide. concat (map shape_paragraphs slide)) presentation)"

definition document_matches ::
  "bool \<Rightarrow> bool \<Rightarrow> (pyval \<times> pyval) list \<Rightarrow> 'f presentation \<Rightarrow> nat" where
  "document_matches match_case whole_word replace_dict presentation =
     sum_list (map (\<lambda>p. sum_of_matches match_case whole_word (full_text_of p) replace_dict)
                   (paragraphs presentation))"

text \<open>
  Extract followed at once by Substitute with what was extracted: the two functions of
  the source, one after the other, on the same container.
\<close>

definition extract_then_substitute ::
  "faults \<Rightarrow> date_time \<Rightarrow> string \<Rightarrow> disk \<Rightarrow> string \<Rightarrow> zip_error + (outcome \<times> disk list)" where
  "extract_then_substitute faults now temp_path disk pptx_path =
     (case extract_embedded_excel_files disk pptx_path of
        Inl e \<Rightarrow> Inl e
      | Inr embedded_files \<Rightarrow>
          Inr (replace_embedded_excel_files faults now temp_path disk pptx_path embedded_files))"

text \<open>
  The entry such an update writes for an entry of the source: an embedded spreadsheet
  gets a new \<^verbatim>\<open>ZipInfo\<close> around its payload, any other entry is copied with its
  own.
\<close>

definition noop_entry :: "date_time \<Rightarrow> entry \<Rightarrow> entry" where
  "noop_entry now e =
     (if selected (filename (info e))
      then \<lparr>info = new_zipinfo (filename (info e)) now, payload = payload e\<rparr>
      else \<lparr>info = copied_info (info e), payload = payload e\<rparr>)"

text \<open>No run that is still in the paragraph has empty text.\<close>

definition no_blank :: "'f run list \<Rightarrow> bool" where
  "no_blank runs = list_all (\<lambda>r. \<not> in_tree r \<or> rtext r \<noteq> []) runs"

section \<open>Counting: the total is the sum of the matches\<close>

lemma pattern_loop_count:
  "pattern_loop ft old v True mc ww ps (u, t, runs) = Inr (u', t', runs') \<Longrightarrow>
   t' = t + sum_list (map (\<lambda>(p, orig). length (finditer (\<not> mc) (bounded ww orig old p) ft)) ps)"
proof (induction ps arbitrary: u t runs)
  case Nil
  then show ?case by simp
next
  case (Cons a ps)
  obtain p orig where a: "a = (p, orig)" by (cases a)
  show ?case
  proof (cases "finditer (\<not> mc) (bounded ww orig old p) ft = []")
    case True
    with Cons.prems a have "pattern_loop ft old v True mc ww ps (u, t, runs) = Inr (u', t', runs')"
      by simp
    from Cons.IH[OF this] True a show ?thesis by simp
  next
    case False
    with Cons.prems a obtain r where
      r: "rewrite ft (finditer (\<not> mc) (bounded ww orig old p) ft) v runs = Inr r"
      and rest: "pattern_loop ft old v True mc ww ps
            (True, t + length (finditer (\<not> mc) (bounded ww orig old p) ft), r) = Inr (u', t', runs')"
      by (auto simp: Let_def split: sum.splits)
    from Cons.IH[OF rest] a show ?thesis by simp
  qed
qed

lemma key_loop_count:
  "key_loop ft True mc ww items (u, t, runs) = Inr (u', t', runs') \<Longrightarrow>
   t' = t + sum_of_matches mc ww ft items"
proof (induction mc ww ft items arbitrary: u t runs rule: sum_of_matches.induct)
  case (2 mc ww ft k v items)
  show ?case
  proof (cases "strip k = []")
    case True
    with 2 show ?thesis by simp
  next
    case False
    with "2.prems" obtain u1 t1 r1 where
      a: "pattern_loop ft (strip k) v True mc ww (patterns (strip k)) (u, t, runs) = Inr (u1, t1, r1)"
      and b: "key_loop ft True mc ww items (u1, t1, r1) = Inr (u', t', runs')"
      by (auto simp: Let_def split: sum.splits)
    from pattern_loop_count[OF a] "2.IH"[OF b] False show ?thesis
      by (simp add: match_counts_def)
  qed
qed simp_all


lemma pattern_loop_no_match:
  "sum_list (map (\<lambda>(p, orig). length (finditer (\<not> mc) (bounded ww orig old p) ft)) ps) = 0 \<Longrightarrow>
   pattern_loop ft old v ra mc ww ps st = Inr st"
proof (induction ps)
  case Nil
  then show ?case by simp
next
  case (Cons a ps)
  obtain p orig where a: "a = (p, orig)" by (cases a)
  obtain u t runs where st: "st = (u, t, runs)" by (cases st)
  from Cons.prems a have "finditer (\<not> mc) (bounded ww orig old p) ft = []" by simp
  moreover from Cons a have "pattern_loop ft old v ra mc ww ps st = Inr st" by simp
  ultimately show ?case using a st by simp
qed

lemma key_loop_no_match:
  "sum_of_matches mc ww ft items = 0 \<Longrightarrow> key_loop ft ra mc ww items st = Inr st"
proof (induction mc ww ft items rule: sum_of_matches.induct)
  case (2 mc ww ft k v items)
  show ?case
  proof (cases "strip k = []")
    case True
    with 2 show ?thesis by simp
  next
    case False
    with "2.prems" have
      "sum_list (map (\<lambda>(p, orig). length (finditer (\<not> mc) (bounded ww orig (strip k) p) ft))
         (patterns (strip k))) = 0"
      by (simp add: match_counts_def)
    from pattern_loop_no_match[OF this] have
      "pattern_loop ft (strip k) v ra mc ww (patterns (strip k)) st = Inr st" .
    with 2 False show ?thesis by (simp add: Let_def)
  qed
qed simp_all

lemma paragraph_of_runs_of: "paragraph_of (runs_of p) = p"
  by (induction p) (auto simp: paragraph_of_def runs_of_def)

lemma scan_empty_text: "finditer ic p [] = []"
  by (simp add: finditer_def)

lemma sum_of_matches_no_text: "ft = [] \<Longrightarrow> sum_of_matches mc ww ft items = 0"
  by (induction mc ww ft items rule: sum_of_matches.induct)
     (auto simp: match_counts_def scan_empty_text)

lemma sum_of_matches_empty_text: "sum_of_matches mc ww [] items = 0"
  by (simp add: sum_of_matches_no_text)

lemma walk_paragraph_no_match:
  "sum_of_matches mc ww (full_text_of p) d = 0 \<Longrightarrow>
   walk_paragraph d ra mc ww p acc = Inr (False, acc, p)"
  by (simp add: walk_paragraph_def replace_in_text_def key_loop_no_match paragraph_of_runs_of)

lemma walk_paragraph_count:
  assumes "walk_paragraph d True mc ww p acc = Inr (ret, acc', p')"
  shows "ret = False \<and> acc' = acc + sum_of_matches mc ww (full_text_of p) d"
proof (cases "p = []")
  case True
  with assms show ?thesis
    by (simp add: walk_paragraph_def full_text_of_def sum_of_matches_empty_text)
next
  case False
  with assms obtain u c r where
    "replace_in_text (full_text_of p) (runs_of p) d True mc ww = Inr (u, c, r)"
    and "acc' = acc + c" and "ret = False"
    by (auto simp: walk_paragraph_def split: sum.splits)
  then show ?thesis
    using key_loop_count[of "full_text_of p" mc ww d False 0 "runs_of p" u c r]
    by (simp add: replace_in_text_def)
qed

lemma walk_list_unchanged:
  "(\<And>x acc. x \<in> set xs \<Longrightarrow> f x acc = Inr (False, acc, x)) \<Longrightarrow>
   walk_list f xs acc = Inr (False, acc, xs)"
  by (induction xs arbitrary: acc) auto

lemma walk_list_count:
  assumes "\<And>x acc ret acc' x'. x \<in> set xs \<Longrightarrow> f x acc = Inr (ret, acc', x') \<Longrightarrow>
             ret = False \<and> acc' = acc + g x"
    and "walk_list f xs acc = Inr (ret, acc', xs')"
  shows "ret = False \<and> acc' = acc + sum_list (map g xs)"
  using assms
proof (induction xs arbitrary: acc ret acc' xs')
  case Nil
  then show ?case by simp
next
  case (Cons x xs)
  from Cons.prems(2) obtain r1 a1 x1 where fx: "f x acc = Inr (r1, a1, x1)"
    by (auto split: sum.splits)
  from Cons.prems(1)[OF _ fx] have r1: "r1 = False" and a1: "a1 = acc + g x" by simp_all
  from Cons.prems(2) fx r1 obtain xs1 where
    rest: "walk_list f xs a1 = Inr (ret, acc', xs1)"
    by (auto split: sum.splits)
  have step: "\<And>y a r a' y'. y \<in> set xs \<Longrightarrow> f y a = Inr (r, a', y') \<Longrightarrow>
        r = False \<and> a' = a + g y"
    using Cons.prems(1) by (meson list.set_intros(2))
  have "ret = False \<and> acc' = a1 + sum_list (map g xs)"
    by (rule Cons.IH[OF step rest])
  with a1 show ?case by simp
qed

lemma walk_shape_no_match:
  assumes "sum_list (map (\<lambda>p. sum_of_matches mc ww (full_text_of p) d) (shape_paragraphs sh)) = 0"
  shows "walk_shape d ra mc ww sh acc = Inr (False, acc, sh)"
proof -
  have tf: "\<And>ps a. text_frame sh = Some ps \<Longrightarrow>
        walk_list (walk_paragraph d ra mc ww) ps a = Inr (False, a, ps)"
    using assms by (intro walk_list_unchanged walk_paragraph_no_match) (auto simp: shape_paragraphs_def)
  have ct: "\<And>ps a. chart_title sh = Some ps \<Longrightarrow>
        walk_list (walk_paragraph d ra mc ww) ps a = Inr (False, a, ps)"
    using assms by (intro walk_list_unchanged walk_paragraph_no_match) (auto simp: shape_paragraphs_def)
  show ?thesis
    by (cases "text_frame sh"; cases "chart_title sh") (simp_all add: walk_shape_def tf ct)
qed

lemma walk_shape_count:
  assumes "walk_shape d True mc ww sh acc = Inr (ret, acc', sh')"
  shows "ret = False \<and> acc' = acc + sum_list (map (\<lambda>p. sum_of_matches mc ww (full_text_of p) d) (shape_paragraphs sh))"
proof -
  let ?g = "\<lambda>p. sum_of_matches mc ww (full_text_of p) d"
  have wl: "\<And>ps a r a' ps'. walk_list (walk_paragraph d True mc ww) ps a = Inr (r, a', ps') \<Longrightarrow>
        r = False \<and> a' = a + sum_list (map ?g ps)"
    by (rule walk_list_count[where f = "walk_paragraph d True mc ww"]) (auto dest: walk_paragraph_count)
  show ?thesis
  proof (cases "text_frame sh")
    case None
    show ?thesis
    proof (cases "chart_title sh")
      case None
      with \<open>text_frame sh = None\<close> assms show ?thesis
        by (simp add: walk_shape_def shape_paragraphs_def)
    next
      case (Some cs)
      with \<open>text_frame sh = None\<close> assms obtain cs' where
        "walk_list (walk_paragraph d True mc ww) cs acc = Inr (ret, acc', cs')"
        by (auto simp: walk_shape_def split: sum.splits)
      from wl[OF this] Some \<open>text_frame sh = None\<close> show ?thesis
        by (simp add: shape_paragraphs_def)
    qed
  next
    case (Some ps)
    with assms obtain r1 a1 ps1 where
      w1: "walk_list (walk_paragraph d True mc ww) ps acc = Inr (r1, a1, ps1)"
      by (auto simp: walk_shape_def split: sum.splits)
    from wl[OF w1] have r1: "r1 = False" and a1: "a1 = acc + sum_list (map ?g ps)" by simp_all
    show ?thesis
    proof (cases "chart_title sh")
      case None
      with Some assms w1 r1 a1 show ?thesis
        by (simp add: walk_shape_def shape_paragraphs_def)
    next
      case (Some cs)
      with \<open>text_frame sh = Some ps\<close> assms w1 r1 obtain cs' where
        "walk_list (walk_paragraph d True mc ww) cs a1 = Inr (ret, acc', cs')"
        by (auto simp: walk_shape_def split: sum.splits)
      from wl[OF this] Some \<open>text_frame sh = Some ps\<close> a1 show ?thesis
        by (simp add: shape_paragraphs_def)
    qed
  qed
qed

lemma sum_list_map_concat_map:
  "sum_list (map g (concat (map h xs))) = sum_list (map (\<lambda>x. sum_list (map g (h x))) xs)"
  by (induction xs) simp_all

lemma walk_slides_no_match:
  assumes "document_matches mc ww d pres = 0"
  shows "walk_slides d ra mc ww pres acc = Inr (False, acc, pres)"
  unfolding walk_slides_def
proof (intro walk_list_unchanged walk_shape_no_match)
  fix slide sh
  assume "slide \<in> set pres" "sh \<in> set slide"
  then have "set (shape_paragraphs sh) \<subseteq> set (paragraphs pres)"
    by (auto simp: paragraphs_def)
  with assms show "sum_list (map (\<lambda>p. sum_of_matches mc ww (full_text_of p) d) (shape_paragraphs sh)) = 0"
    by (auto simp: document_matches_def)
qed

lemma walk_slides_count:
  assumes "walk_slides d True mc ww pres acc = Inr (ret, acc', pres')"
  shows "ret = False \<and> acc' = acc + document_matches mc ww d pres"
proof -
  let ?g = "\<lambda>p. sum_of_matches mc ww (full_text_of p) d"
  let ?gs = "\<lambda>sh. sum_list (map ?g (shape_paragraphs sh))"
  let ?gl = "\<lambda>slide. sum_list (map ?gs slide)"
  have shapes: "\<And>slide a r a' s'. walk_list (walk_shape d True mc ww) slide a = Inr (r, a', s') \<Longrightarrow>
        r = False \<and> a' = a + ?gl slide"
    by (rule walk_list_count[where f = "walk_shape d True mc ww"]) (auto dest: walk_shape_count)
  have "ret = False \<and> acc' = acc + sum_list (map ?gl pres)"
  proof (rule walk_list_count[where f = "walk_list (walk_shape d True mc ww)" and g = ?gl])
    show "walk_list (walk_list (walk_shape d True mc ww)) pres acc = Inr (ret, acc', pres')"
      using assms by (simp add: walk_slides_def)
  next
    fix x a r a' x'
    assume "x \<in> set pres" "walk_list (walk_shape d True mc ww) x a = Inr (r, a', x')"
    then show "r = False \<and> a' = a + ?gl x" by (intro shapes)
  qed
  moreover have "sum_list (map ?gl pres) = document_matches mc ww d pres"
    by (simp add: document_matches_def paragraphs_def sum_list_map_concat_map)
  ultimately show ?thesis by simp
qed

section \<open>Literal patterns, and what a rewrite leaves\<close>

text \<open>
  The character tables beyond ASCII, on three inputs: under \<^verbatim>\<open>re.IGNORECASE\<close> the key
  e-acute matches the text E-acute; \<^verbatim>\<open>strip\<close> removes a no-break space and a
  next-line character; and a bell character written to a run is read back escaped.
\<close>

lemma character_tables_examples:
  "finditer True (re_escape [CHR 0xE9]) [CHR 0xC9] = [(0, 1)] \<and>
   strip [CHR 0xA0, CHR ''k'', CHR 0x85] = ''k'' \<and>
   escape_ctrl_chars [CHR ''a'', CHR 0x07, CHR 0x09] = ''a_x0007_'' @ [CHR 0x09]"
  by code_simp

text \<open>
  A pattern made of literals only matches at a position exactly when the text there is
  the literal string, up to case under \<^verbatim>\<open>re.IGNORECASE\<close>; the plain pattern and
  the double-brace pattern of a key are such patterns.
\<close>

lemma rx_match_literal:
  "rx_match ic (map Lit k) prev s =
     (if length k \<le> length s \<and> list_all2 (chr_eq ic) k (take (length k) s)
      then Some (length k) else None)"
proof (induction k arbitrary: prev s)
  case Nil
  then show ?case by simp
next
  case (Cons c k)
  show ?case
  proof (cases s)
    case Nil
    then show ?thesis by simp
  next
    case (Cons x xs)
    then show ?thesis by (simp add: Cons.IH)
  qed
qed

lemma plain_and_brace_patterns_are_literal:
  "fst (patterns k ! 0) = map Lit k \<and> fst (patterns k ! 1) = map Lit (''{{'' @ k @ ''}}'')"
  by (simp add: patterns_def placeholder_patterns_def re_escape_def)

text \<open>
  After a rewrite that came to its end, no run that is still in the paragraph has empty
  text; so a paragraph that \<^verbatim>\<open>replace_in_text\<close> reports as updated has no blank
  fragment.
\<close>

lemma remove_runs_no_blank: "remove_runs runs = Inr runs' \<Longrightarrow> no_blank runs'"
proof (induction runs arbitrary: runs')
  case Nil
  then show ?case by (simp add: no_blank_def)
next
  case (Cons r runs)
  from Cons.prems obtain rs where rs: "remove_runs runs = Inr rs"
    by (auto split: if_splits sum.splits)
  from Cons.IH[OF rs] Cons.prems rs show ?case
    by (auto simp: no_blank_def split: if_splits)
qed

lemma rewrite_no_blank: "rewrite ft ms v runs = Inr runs' \<Longrightarrow> no_blank runs'"
  by (auto simp: rewrite_def remove_empty_runs_def no_blank_def list_all_iff
           split: sum.splits dest!: remove_runs_no_blank)

lemma pattern_loop_no_blank:
  "pattern_loop ft old v ra mc ww ps (u, t, runs) = Inr (u', t', runs') \<Longrightarrow>
   (u \<Longrightarrow> no_blank runs) \<Longrightarrow> u' \<Longrightarrow> no_blank runs'"
proof (induction ps arbitrary: u t runs)
  case Nil
  then show ?case by simp
next
  case (Cons a ps)
  obtain p orig where a: "a = (p, orig)" by (cases a)
  let ?ms = "finditer (\<not> mc) (bounded ww orig old p) ft"
  show ?case
  proof (cases "?ms = []")
    case True
    with Cons.prems(1) a have "pattern_loop ft old v ra mc ww ps (u, t, runs) = Inr (u', t', runs')"
      by simp
    from Cons.IH[OF this Cons.prems(2) Cons.prems(3)] show ?thesis by simp
  next
    case False
    with Cons.prems(1) a obtain r c where
      r: "rewrite ft (if ra then ?ms else take 1 ?ms) v runs = Inr r"
      and rest: "(\<not> ra \<and> runs' = r) \<or>
                 pattern_loop ft old v ra mc ww ps (True, c, r) = Inr (u', t', runs')"
      by (cases ?ms) (auto simp: Let_def split: sum.splits if_splits)
    from rewrite_no_blank[OF r] have nb: "no_blank r" .
    from rest show ?thesis
    proof
      assume "\<not> ra \<and> runs' = r"
      with nb show ?thesis by simp
    next
      assume "pattern_loop ft old v ra mc ww ps (True, c, r) = Inr (u', t', runs')"
      from Cons.IH[OF this nb Cons.prems(3)] show ?thesis .
    qed
  qed
qed

lemma key_loop_no_blank:
  "key_loop ft ra mc ww items (u, t, runs) = Inr (u', t', runs') \<Longrightarrow>
   (u \<Longrightarrow> no_blank runs) \<Longrightarrow> u' \<Longrightarrow> no_blank runs'"
proof (induction ft ra mc ww items "(u, t, runs)" arbitrary: u t runs rule: key_loop.induct)
  case (2 ft ra mc ww k v items)
  show ?case
  proof (cases "strip k = []")
    case True
    with 2 show ?thesis by simp
  next
    case False
    with "2.prems"(1) obtain u1 t1 r1 where
      a: "pattern_loop ft (strip k) v ra mc ww (patterns (strip k)) (u, t, runs) = Inr (u1, t1, r1)"
      and b: "key_loop ft ra mc ww items (u1, t1, r1) = Inr (u', t', runs')"
      by (auto simp: Let_def split: sum.splits)
    have "u1 \<Longrightarrow> no_blank r1" by (rule pattern_loop_no_blank[OF a "2.prems"(2)])
    from "2.hyps"(2)[OF refl False a b this "2.prems"(3)] show ?thesis .
  qed
qed auto

lemma updated_paragraph_has_no_blank_fragment:
  assumes "replace_in_text full_text runs replace_dict replace_all match_case whole_word =
             Inr (True, n, runs')"
  shows "[] \<notin> set (map fst (paragraph_of runs'))"
proof -
  from assms have "no_blank runs'"
    by (auto simp: replace_in_text_def dest: key_loop_no_blank)
  then show ?thesis
    by (auto simp: no_blank_def paragraph_of_def list_all_iff)
qed

text \<open>
  The count of scenario 1 does not depend on how the paragraph is divided into runs: if
  \<^verbatim>\<open>replace_in_text\<close> returns at all, it returns 4.
\<close>

lemma scenario_1_sum: "sum_of_matches False True ''Hello {{name}}, welcome <name>!''
    [(PStr ''name'', PStr ''Acme'')] = 4"
  by code_simp

lemma scenario_1_count_for_any_runs:
  "replace_in_text ''Hello {{name}}, welcome <name>!'' runs [(PStr ''name'', PStr ''Acme'')]
     True False True = Inr (updated, n, runs') \<Longrightarrow> n = 4"
proof -
  assume "replace_in_text ''Hello {{name}}, welcome <name>!'' runs [(PStr ''name'', PStr ''Acme'')]
     True False True = Inr (updated, n, runs')"
  then have "key_loop ''Hello {{name}}, welcome <name>!'' True False True
      [(PStr ''name'', PStr ''Acme'')] (False, 0, runs) = Inr (updated, n, runs')"
    unfolding replace_in_text_def .
  from key_loop_count[OF this] show "n = 4"
    unfolding scenario_1_sum by simp
qed

section \<open>The text engine on the inputs of the claims\<close>

lemma suffix_deck: "lower (suffix [''deck.pptx'']) = ''.pptx''"
  by code_simp

lemma suffix_notes: "lower (suffix [''notes.txt'']) = ''.txt''"
  by code_simp

lemma walk_scenario_1:
  "walk_slides [(PStr ''name'', PStr ''Acme'')] True False True
     [[\<lparr>text_frame = Some [[(''Hello {{name}}, welcome <name>!'', ''style'')]],
        chart_title = None\<rparr>]] 0 =
   Inr (False, 4,
     [[\<lparr>text_frame =
          Some [[(''Hello {{Acme}}, welcome <name>!Hello {{name}}, welcome <Acme>!'', ''style'')]],
        chart_title = None\<rparr>]])"
  by code_simp

text \<open>
  Claim C1 (end-to-end scenario 1). The claim: for the mapping name to Acme with
  \<open>replace_all\<close> true, \<open>match_case\<close> false and \<open>whole_word\<close> true, a paragraph
  whose text is \<^verbatim>\<open>Hello {{name}}, welcome <name>!\<close> becomes
  \<^verbatim>\<open>Hello Acme, welcome Acme!\<close> and the count is 2. The code, on a document with
  that paragraph in one run: the plain pattern matches the two keys inside their
  delimiters, the run gets one copy of its text per match, and the brace and the angle
  pattern, matched against the original text, are counted too. The count is 4 and the
  delimiters stay.
\<close>

theorem C1_scenario_1_evaluated:
  "replace_text
     [[''deck.pptx''] \<mapsto>
        Pptx [[\<lparr>text_frame = Some [[(''Hello {{name}}, welcome <name>!'', ''style'')]],
                 chart_title = None\<rparr>]]]
     [''deck.pptx''] [(PStr ''name'', PStr ''Acme'')] True False True =
   ((True, 4),
    [[''deck.pptx''] \<mapsto>
       Pptx [[\<lparr>text_frame =
                  Some [[(''Hello {{Acme}}, welcome <name>!Hello {{name}}, welcome <Acme>!'',
                          ''style'')]],
                chart_title = None\<rparr>]]],
    [Loaded [''deck.pptx''], Saved [''deck.pptx'']])"
  by (simp add: replace_text_def suffix_deck walk_scenario_1)

lemma patterns_eq:
  "patterns k =
     [(map Lit k, k),
      ([Lit CHR ''{'', Lit CHR ''{''] @ map Lit k @ [Lit CHR ''}'', Lit CHR ''}''], ''{{'' @ k @ ''}}''),
      ([Lit CHR ''<'', NotPlus CHR ''>'', Lit CHR ''>''], ''<'' @ k @ ''>''),
      ([Lit CHR ''['', NotPlus CHR '']'', Lit CHR '']''], ''['' @ k @ '']'')]"
  by (simp add: patterns_def placeholder_patterns_def re_escape_def)

text \<open>
  Claim C2 (pattern expansion). The claim: a key gives one plain pattern and one pattern
  per placeholder style, each placeholder pattern matching the key, literally, in that
  style's delimiters and nothing else. The code: four patterns, the plain and the
  double-brace one literal in the key; the angle and the bracket template do not contain
  the text \<^verbatim>\<open>[^}]+\<close> that line 192 replaces, so for every key they stay the
  templates, which match any content between the delimiters: for the key a, the text
  \<^verbatim>\<open><b>\<close> and the text \<^verbatim>\<open>[b]\<close>.
\<close>

theorem C2_angle_and_bracket_patterns_ignore_the_key:
  "map fst (patterns k) =
     [map Lit k,
      [Lit CHR ''{'', Lit CHR ''{''] @ map Lit k @ [Lit CHR ''}'', Lit CHR ''}''],
      [Lit CHR ''<'', NotPlus CHR ''>'', Lit CHR ''>''],
      [Lit CHR ''['', NotPlus CHR '']'', Lit CHR '']'']] \<and>
   finditer False (fst (patterns ''a'' ! 2)) ''<b>'' = [(0, 3)] \<and>
   finditer False (fst (patterns ''a'' ! 3)) ''[b]'' = [(0, 3)]"
proof -
  have "finditer False (fst (patterns ''a'' ! 2)) ''<b>'' = [(0, 3)]" by code_simp
  moreover have "finditer False (fst (patterns ''a'' ! 3)) ''[b]'' = [(0, 3)]" by code_simp
  ultimately show ?thesis by (simp add: patterns_eq)
qed

text \<open>
  Claim C3 (no occurrence, no change). The claim: a paragraph whose text has no occurrence
  of any of the four spellings of any key keeps its fragments, texts and style handles.
  The code, for the key a and the one fragment \<^verbatim>\<open><b>\<close>: none of a,
  \<^verbatim>\<open>{{a}}\<close>, \<^verbatim>\<open><a>\<close>, \<^verbatim>\<open>[a]\<close> occurs in the text, the angle pattern
  matches all of it, and the fragment's text becomes the value X.
\<close>

theorem C3_other_delimited_text_is_rewritten:
  "replace_in_text ''<b>'' (runs_of [(''<b>'', ''style'')]) [(PStr ''a'', PStr ''X'')]
     True True False =
   Inr (True, 1, runs_of [(''X'', ''style'')]) \<and>
   sum_list (map (\<lambda>s. length (finditer False (re_escape s) ''<b>''))
               [''a'', ''{{a}}'', ''<a>'', ''[a]'']) = 0"
  by code_simp

text \<open>
  Claim C4 (\<open>replace_all\<close> false). The claim: once a match is found in a paragraph, only
  that first match is applied and no further key or pattern is processed, so the count of
  the paragraph is at most 1. The code: the \<^verbatim>\<open>break\<close> of line 263 leaves the loop
  over the patterns of one key, and the loop over the keys goes on. For the keys a and b
  and the fragments a and \<^verbatim>\<open> b\<close>, both are replaced and the count is 2.
\<close>

theorem C4_second_key_is_applied:
  "replace_in_text ''a b'' (runs_of [(''a'', ''s1''), ('' b'', ''s2'')])
     [(PStr ''a'', PStr ''X''), (PStr ''b'', PStr ''Y'')] False True False =
   Inr (True, 2, runs_of [(''X'', ''s1''), ('' Y'', ''s2'')])"
  by code_simp

text \<open>
  Claim C8 (empty fragments are removed). The claim: after a rewrite no fragment is left
  with empty text, and in particular a match with the empty string as its value that
  covers a whole fragment makes the fragment go. The code: the new text of such a
  fragment is empty, line 245 takes an empty new text for a fragment without a match and
  puts the old text back, and the fragment stays as it was, counted as one replacement.
\<close>

theorem C8_empty_replacement_keeps_the_fragment:
  "replace_in_text ''foo'' (runs_of [(''foo'', ''style'')]) [(PStr ''foo'', PStr '''')]
     True True False =
   Inr (True, 1, runs_of [(''foo'', ''style'')])"
  by code_simp

section \<open>The count and the up-front checks\<close>

lemma matches_scenario_1:
  "document_matches False True [(PStr ''name'', PStr ''Acme'')]
     [[\<lparr>text_frame = Some [[(''Hello {{name}}, welcome <name>!'', ''style'')]],
        chart_title = None\<rparr>]] = 4"
  by code_simp

lemma rit_scenario_1:
  "replace_in_text ''Hello {{name}}, welcome <name>!''
     (runs_of [(''Hello {{name}}, welcome <name>!'', ''style'')])
     [(PStr ''name'', PStr ''Acme'')] True False True =
   Inr (True, 4,
        runs_of [(''Hello {{Acme}}, welcome <name>!Hello {{name}}, welcome <Acme>!'', ''style'')])"
  by code_simp

lemma rit_braces:
  "replace_in_text ''{{k}}'' (runs_of [(''{{k}}'', ''style'')]) [(PStr ''k'', PStr ''v'')]
     True True False =
   Inr (True, 2, runs_of [(''{{v}}'', ''style'')])"
  by code_simp

lemma counts_braces: "match_counts True False ''{{k}}'' ''k'' = [1, 1, 0, 0]"
  by code_simp

text \<open>
  Claim C9 as stated (the count returned is the sum of the numbers of matches) fails in
  two ways. With \<open>replace_all\<close> false, lines 213-215 count a pattern that matches as 1:
  the text \<^verbatim>\<open>a a\<close> with the key a has two matches and the count 1. And when a
  paragraph has an empty run, the second pattern that matches finds the run already taken
  out and raises, and \<^verbatim>\<open>replace_text\<close> returns \<open>(False, 0)\<close>: the runs
  \<^verbatim>\<open>{{k}}\<close> and the empty string with the key k have two matches and the count 0.
\<close>

theorem C9_total_count_counterexample:
  "fst (replace_text
          [[''deck.pptx''] \<mapsto>
             Pptx [[\<lparr>text_frame = Some [[(''a a'', ''style'')]], chart_title = None\<rparr>]]]
          [''deck.pptx''] [(PStr ''a'', PStr ''X'')] False True False) = (True, 1) \<and>
   document_matches True False [(PStr ''a'', PStr ''X'')]
     [[\<lparr>text_frame = Some [[(''a a'', ''style'')]], chart_title = None\<rparr>]] = 2 \<and>
   fst (replace_text
          [[''deck.pptx''] \<mapsto>
             Pptx [[\<lparr>text_frame = Some [[(''{{k}}'', ''s1''), ('''', ''s2'')]],
                      chart_title = None\<rparr>]]]
          [''deck.pptx''] [(PStr ''k'', PStr ''v'')] True True False) = (False, 0) \<and>
   document_matches True False [(PStr ''k'', PStr ''v'')]
     [[\<lparr>text_frame = Some [[(''{{k}}'', ''s1''), ('''', ''s2'')]], chart_title = None\<rparr>]] = 2"
proof -
  have w1: "walk_slides [(PStr ''a'', PStr ''X'')] False True False
      [[\<lparr>text_frame = Some [[(''a a'', ''style'')]], chart_title = None\<rparr>]] 0 =
      Inr (True, 1, [[\<lparr>text_frame = Some [[(''X a'', ''style'')]], chart_title = None\<rparr>]])"
    by code_simp
  have w2: "walk_slides [(PStr ''k'', PStr ''v'')] True True False
      [[\<lparr>text_frame = Some [[(''{{k}}'', ''s1''), ('''', ''s2'')]], chart_title = None\<rparr>]] 0 =
      Inl AttributeError"
    by code_simp
  have m1: "document_matches True False [(PStr ''a'', PStr ''X'')]
     [[\<lparr>text_frame = Some [[(''a a'', ''style'')]], chart_title = None\<rparr>]] = 2"
    by code_simp
  have m2: "document_matches True False [(PStr ''k'', PStr ''v'')]
     [[\<lparr>text_frame = Some [[(''{{k}}'', ''s1''), ('''', ''s2'')]], chart_title = None\<rparr>]] = 2"
    by code_simp
  show ?thesis
    by (simp add: replace_text_def suffix_deck w1 w2 m1 m2)
qed

text \<open>
  Claim C9, amended (what the count counts). With \<open>replace_all\<close> true, the count that
  \<^verbatim>\<open>replace_text\<close> returns with success is the sum, over the paragraphs of the walk,
  the keys that are not skipped and the four patterns of each key, of the number of
  matches of the pattern in the paragraph's original text; so is the count of
  \<^verbatim>\<open>replace_in_text\<close> for one paragraph, when it returns. It is not a number of edits:
  the one placeholder \<^verbatim>\<open>{{k}}\<close> is counted twice, once by the plain pattern and once
  by the double-brace pattern, and edited once.
\<close>

theorem C9_total_count_is_the_sum_of_regex_matches:
  "(replace_text files file_path replace_dict True match_case whole_word =
      ((True, n), files', events) \<longrightarrow>
    (\<exists>presentation. files file_path = Some (Pptx presentation) \<and>
       n = document_matches match_case whole_word replace_dict presentation)) \<and>
   (replace_in_text full_text runs replace_dict True match_case whole_word =
      Inr (updated, total_count, runs') \<longrightarrow>
    total_count = sum_of_matches match_case whole_word full_text replace_dict) \<and>
   replace_in_text ''{{k}}'' (runs_of [(''{{k}}'', ''style'')]) [(PStr ''k'', PStr ''v'')]
     True True False = Inr (True, 2, runs_of [(''{{v}}'', ''style'')]) \<and>
   match_counts True False ''{{k}}'' ''k'' = [1, 1, 0, 0]"
proof (intro conjI impI)
  assume r: "replace_text files file_path replace_dict True match_case whole_word =
      ((True, n), files', events)"
  then obtain presentation where f: "files file_path = Some (Pptx presentation)"
    by (cases "files file_path"; cases "the (files file_path)")
       (auto simp: replace_text_def split: if_splits)
  with r obtain ret p' where
    "walk_slides replace_dict True match_case whole_word presentation 0 = Inr (ret, n, p')"
    by (auto simp: replace_text_def split: if_splits sum.splits)
  from walk_slides_count[OF this] f
  show "\<exists>presentation. files file_path = Some (Pptx presentation) \<and>
       n = document_matches match_case whole_word replace_dict presentation"
    by simp
next
  assume "replace_in_text full_text runs replace_dict True match_case whole_word =
      Inr (updated, total_count, runs')"
  then show "total_count = sum_of_matches match_case whole_word full_text replace_dict"
    using key_loop_count[of full_text match_case whole_word replace_dict False 0 runs
        updated total_count runs']
    by (simp add: replace_in_text_def)
qed (rule rit_braces counts_braces)+

theorem C9_total_count_witness:
  "replace_text
     [[''deck.pptx''] \<mapsto>
        Pptx [[\<lparr>text_frame = Some [[(''Hello {{name}}, welcome <name>!'', ''style'')]],
                 chart_title = None\<rparr>]]]
     [''deck.pptx''] [(PStr ''name'', PStr ''Acme'')] True False True =
   ((True, 4),
    [[''deck.pptx''] \<mapsto>
       Pptx [[\<lparr>text_frame =
                  Some [[(''Hello {{Acme}}, welcome <name>!Hello {{name}}, welcome <Acme>!'',
                          ''style'')]],
                chart_title = None\<rparr>]]],
    [Loaded [''deck.pptx''], Saved [''deck.pptx'']]) \<and>
   document_matches False True [(PStr ''name'', PStr ''Acme'')]
     [[\<lparr>text_frame = Some [[(''Hello {{name}}, welcome <name>!'', ''style'')]],
        chart_title = None\<rparr>]] = 4 \<and>
   replace_in_text ''Hello {{name}}, welcome <name>!''
     (runs_of [(''Hello {{name}}, welcome <name>!'', ''style'')])
     [(PStr ''name'', PStr ''Acme'')] True False True =
   Inr (True, 4,
        runs_of [(''Hello {{Acme}}, welcome <name>!Hello {{name}}, welcome <Acme>!'', ''style'')]) \<and>
   sum_of_matches False True ''Hello {{name}}, welcome <name>!'' [(PStr ''name'', PStr ''Acme'')] = 4"
proof -
  let ?doc = "[[\<lparr>text_frame = Some [[(''Hello {{name}}, welcome <name>!'', ''style'')]],
                 chart_title = None :: string para list option\<rparr>]]"
  let ?doc' = "[[\<lparr>text_frame =
                  Some [[(''Hello {{Acme}}, welcome <name>!Hello {{name}}, welcome <Acme>!'',
                          ''style'')]],
                chart_title = None :: string para list option\<rparr>]]"
  have run: "replace_text [[''deck.pptx''] \<mapsto> Pptx ?doc] [''deck.pptx'']
      [(PStr ''name'', PStr ''Acme'')] True False True =
     ((True, 4), [[''deck.pptx''] \<mapsto> Pptx ?doc'], [Loaded [''deck.pptx''], Saved [''deck.pptx'']])"
    by (simp add: replace_text_def suffix_deck walk_scenario_1)
  from C9_total_count_is_the_sum_of_regex_matches
         [of "[[''deck.pptx''] \<mapsto> Pptx ?doc]" "[''deck.pptx'']"
             "[(PStr ''name'', PStr ''Acme'')]" False True 4
             "[[''deck.pptx''] \<mapsto> Pptx ?doc']" "[Loaded [''deck.pptx''], Saved [''deck.pptx'']]"
             "''Hello {{name}}, welcome <name>!''"
             "runs_of [(''Hello {{name}}, welcome <name>!'', ''style'')]"
             True 4
             "runs_of [(''Hello {{Acme}}, welcome <name>!Hello {{name}}, welcome <Acme>!'', ''style'')]"]
  show ?thesis using run rit_scenario_1 by simp
qed

lemma matches_nothing_example:
  "document_matches True False [(PStr ''X'', PStr ''Y'')]
     [[\<lparr>text_frame = Some [[(''Hello '', ''s1''), (''world'', ''s2'')]],
        chart_title = Some [[(''Sales'', ''s3'')]]\<rparr>]] = 0"
  by code_simp

text \<open>
  The checks of lines 152-159: a missing file, a suffix other than \<^verbatim>\<open>.pptx\<close> and
  \<^verbatim>\<open>.ppt\<close>, or an empty dictionary gives \<open>(False, 0)\<close> with the files as they were
  and no document loaded. And a document that loads, with a dictionary none of whose
  patterns, as the code builds them, matches in any paragraph, gives \<open>(True, 0)\<close>: the
  document is loaded and saved, and what is saved is the document as it was.
\<close>

lemma rejected_up_front_or_true_zero:
  "(files file_path = None \<or> lower (suffix file_path) \<notin> set [''.pptx'', ''.ppt''] \<or>
    replace_dict = [] \<longrightarrow>
      replace_text files file_path replace_dict replace_all match_case whole_word =
        ((False, 0), files, [])) \<and>
   (files file_path = Some (Pptx presentation) \<and>
    lower (suffix file_path) \<in> set [''.pptx'', ''.ppt''] \<and> replace_dict \<noteq> [] \<and>
    document_matches match_case whole_word replace_dict presentation = 0 \<longrightarrow>
      replace_text files file_path replace_dict replace_all match_case whole_word =
        ((True, 0), files, [Loaded file_path, Saved file_path]))"
proof (intro conjI impI)
  assume "files file_path = None \<or> lower (suffix file_path) \<notin> set [''.pptx'', ''.ppt''] \<or>
    replace_dict = []"
  then show "replace_text files file_path replace_dict replace_all match_case whole_word =
        ((False, 0), files, [])"
    by (auto simp: replace_text_def)
next
  assume a: "files file_path = Some (Pptx presentation) \<and>
    lower (suffix file_path) \<in> set [''.pptx'', ''.ppt''] \<and> replace_dict \<noteq> [] \<and>
    document_matches match_case whole_word replace_dict presentation = 0"
  then have same: "files(file_path \<mapsto> Pptx presentation) = files"
    by (auto simp: fun_eq_iff)
  from a have "walk_slides replace_dict replace_all match_case whole_word presentation 0 =
      Inr (False, 0, presentation)"
    by (simp add: walk_slides_no_match)
  with a same show "replace_text files file_path replace_dict replace_all match_case whole_word =
        ((True, 0), files, [Loaded file_path, Saved file_path])"
    by (auto simp: replace_text_def)
qed

lemma rejected_up_front_or_true_zero_example:
  "replace_text (Map.empty :: string files) [''deck.pptx''] [(PStr ''X'', PStr ''Y'')] True True False =
     ((False, 0), Map.empty, []) \<and>
   replace_text ([[''notes.txt''] \<mapsto> NotPptx] :: string files) [''notes.txt'']
     [(PStr ''X'', PStr ''Y'')] True True False =
     ((False, 0), [[''notes.txt''] \<mapsto> NotPptx], []) \<and>
   replace_text
     [[''deck.pptx''] \<mapsto>
        Pptx [[\<lparr>text_frame = Some [[(''Hello '', ''s1''), (''world'', ''s2'')]],
                 chart_title = Some [[(''Sales'', ''s3'')]]\<rparr>]]]
     [''deck.pptx''] [] True True False =
     ((False, 0),
      [[''deck.pptx''] \<mapsto>
        Pptx [[\<lparr>text_frame = Some [[(''Hello '', ''s1''), (''world'', ''s2'')]],
                 chart_title = Some [[(''Sales'', ''s3'')]]\<rparr>]]], []) \<and>
   replace_text
     [[''deck.pptx''] \<mapsto>
        Pptx [[\<lparr>text_frame = Some [[(''Hello '', ''s1''), (''world'', ''s2'')]],
                 chart_title = Some [[(''Sales'', ''s3'')]]\<rparr>]]]
     [''deck.pptx''] [(PStr ''X'', PStr ''Y'')] True True False =
     ((True, 0),
      [[''deck.pptx''] \<mapsto>
        Pptx [[\<lparr>text_frame = Some [[(''Hello '', ''s1''), (''world'', ''s2'')]],
                 chart_title = Some [[(''Sales'', ''s3'')]]\<rparr>]]],
      [Loaded [''deck.pptx''], Saved [''deck.pptx'']])"
proof -
  let ?doc = "[[\<lparr>text_frame = Some [[(''Hello '', ''s1''), (''world'', ''s2'')]],
                 chart_title = Some [[(''Sales'', ''s3'')]]\<rparr>]]"
  let ?d = "[(PStr ''X'', PStr ''Y'')]"
  note a = rejected_up_front_or_true_zero
             [of "Map.empty :: string files" "[''deck.pptx'']" ?d True True False ?doc]
  note b = rejected_up_front_or_true_zero
             [of "[[''notes.txt''] \<mapsto> NotPptx] :: string files" "[''notes.txt'']" ?d
                 True True False ?doc]
  note c = rejected_up_front_or_true_zero
             [of "[[''deck.pptx''] \<mapsto> Pptx ?doc]" "[''deck.pptx'']" "[]" True True False ?doc]
  note d = rejected_up_front_or_true_zero
             [of "[[''deck.pptx''] \<mapsto> Pptx ?doc]" "[''deck.pptx'']" ?d True True False ?doc]
  show ?thesis
    using a b c d by (simp add: suffix_deck suffix_notes matches_nothing_example)
qed

lemma walk_bracketed:
  "walk_slides [(PStr ''X'', PStr ''Y'')] True True False
     [[\<lparr>text_frame = Some [[(''see [1]'', ''style'')]], chart_title = None\<rparr>]] 0 =
   Inr (False, 1, [[\<lparr>text_frame = Some [[(''see Y'', ''style'')]], chart_title = None\<rparr>]])"
  by code_simp

text \<open>
  Claim C7 (rejected up front, or true with zero). The claim: a missing file, an invalid
  extension or an empty mapping is rejected as \<open>(False, 0)\<close> without opening the
  document, and a valid document with a mapping that matches nothing returns
  \<open>(True, 0)\<close>. The code does the first. For the second, take the mapping X to Y and a
  document whose one paragraph is \<^verbatim>\<open>see [1]\<close>: none of X, \<^verbatim>\<open>{{X}}\<close>, \<^verbatim>\<open><X>\<close>,
  \<^verbatim>\<open>[X]\<close> occurs in it, the bracket pattern, which never got the key (line 192),
  matches \<^verbatim>\<open>[1]\<close>, and the code returns \<open>(True, 1)\<close> and saves \<^verbatim>\<open>see Y\<close>.
\<close>

theorem C7_bracketed_text_counts_as_a_match:
  "replace_text
     [[''deck.pptx''] \<mapsto>
        Pptx [[\<lparr>text_frame = Some [[(''see [1]'', ''style'')]], chart_title = None\<rparr>]]]
     [''deck.pptx''] [(PStr ''X'', PStr ''Y'')] True True False =
   ((True, 1),
    [[''deck.pptx''] \<mapsto>
       Pptx [[\<lparr>text_frame = Some [[(''see Y'', ''style'')]], chart_title = None\<rparr>]]],
    [Loaded [''deck.pptx''], Saved [''deck.pptx'']]) \<and>
   sum_list (map (\<lambda>s. length (finditer False (re_escape s) ''see [1]''))
               [''X'', ''{{X}}'', ''<X>'', ''[X]'']) = 0"
proof -
  have "sum_list (map (\<lambda>s. length (finditer False (re_escape s) ''see [1]''))
               [''X'', ''{{X}}'', ''<X>'', ''[X]'']) = 0"
    by code_simp
  then show ?thesis
    by (simp add: replace_text_def suffix_deck walk_bracketed)
qed

section \<open>The container surgery\<close>

lemma filename_new_zipinfo: "filename (new_zipinfo name now) = name"
  by (simp add: new_zipinfo_def)

lemma filename_copied_info: "filename (copied_info zi) = filename zi"
  by (simp add: copied_info_def)

lemma write_members_names:
  "write_members faults now src upd items i dst = Inr out \<Longrightarrow>
   namelist out = namelist dst @ namelist items"
proof (induction items arbitrary: i dst)
  case Nil
  then show ?case by (simp add: namelist_def)
next
  case (Cons item items)
  show ?case
  proof (cases "upd (filename (info item))")
    case None
    with Cons.prems obtain data where
      "write_members faults now src upd items (Suc i)
         (dst @ [\<lparr>info = copied_info (info item), payload = data\<rparr>]) = Inr out"
      by (auto split: if_splits sum.splits)
    from Cons.IH[OF this] show ?thesis by (simp add: namelist_def filename_copied_info)
  next
    case (Some b)
    with Cons.prems have
      "write_members faults now src upd items (Suc i)
         (dst @ [\<lparr>info = new_zipinfo (filename (info item)) now, payload = b\<rparr>]) = Inr out"
      by (auto split: if_splits)
    from Cons.IH[OF this] show ?thesis by (simp add: namelist_def new_zipinfo_def)
  qed
qed

lemma write_members_restrict:
  "set (namelist items) \<subseteq> S \<Longrightarrow>
   write_members faults now src (upd |` S) items i dst =
   write_members faults now src upd items i dst"
  by (induction items arbitrary: i dst)
     (auto simp: namelist_def restrict_map_def split: option.splits sum.splits)

lemma rebuild_names:
  "rebuild faults now disk pptx_path upd = Inr dst \<Longrightarrow>
   \<exists>src. disk pptx_path = Some (Archive src) \<and> namelist dst = namelist src"
  by (auto simp: rebuild_def namelist_def split: if_splits option.splits zfile.splits sum.splits
           dest!: write_members_names)

lemma rebuild_restrict:
  "disk pptx_path = Some (Archive src) \<Longrightarrow>
   rebuild faults now disk pptx_path (upd |` set (namelist src)) =
   rebuild faults now disk pptx_path upd"
  by (simp add: rebuild_def write_members_restrict)

lemma rebuild_reads_pptx_path_only:
  "disk' pptx_path = disk pptx_path \<Longrightarrow>
   rebuild faults now disk' pptx_path upd = rebuild faults now disk pptx_path upd"
  by (simp add: rebuild_def)

lemma zip_read_distinct:
  "distinct (namelist src) \<Longrightarrow> e \<in> set src \<Longrightarrow>
   zip_read src (filename (info e)) = Inr (payload e)"
proof -
  assume d: "distinct (namelist src)" and e: "e \<in> set src"
  have "filter (\<lambda>x. filename (info x) = filename (info e)) src = [e]"
    using d e
  proof (induction src)
    case Nil
    then show ?case by simp
  next
    case (Cons a src)
    show ?case
    proof (cases "a = e")
      case True
      with Cons.prems have "filename (info e) \<notin> set (namelist src)"
        by (simp add: namelist_def)
      then have "\<forall>x\<in>set src. filename (info x) \<noteq> filename (info e)"
        unfolding namelist_def by (metis image_eqI set_map)
      then have "filter (\<lambda>x. filename (info x) = filename (info e)) src = []"
        by (simp add: filter_empty_conv)
      with True show ?thesis by simp
    next
      case False
      with Cons.prems have "e \<in> set src" and "filename (info a) \<noteq> filename (info e)"
        by (auto simp: namelist_def)
      with Cons show ?thesis by (simp add: namelist_def)
    qed
  qed
  then show ?thesis by (simp add: zip_read_def)
qed

lemma extract_loop_result:
  assumes "\<And>f. f \<in> set fs \<Longrightarrow> \<exists>b. zip_read es f = Inr b"
  shows "\<exists>d'. extract_loop es fs d = Inr d' \<and>
           (\<forall>f. d' f = (if f \<in> set fs \<and> selected f
                         then (case zip_read es f of Inr b \<Rightarrow> Some b | Inl e \<Rightarrow> None)
                         else d f))"
  using assms
proof (induction fs arbitrary: d)
  case Nil
  then show ?case by simp
next
  case (Cons f fs)
  from Cons.prems obtain b where b: "zip_read es f = Inr b" by auto
  have rest: "\<And>g. g \<in> set fs \<Longrightarrow> \<exists>b. zip_read es g = Inr b"
    using Cons.prems by auto
  show ?case
  proof (cases "selected f")
    case True
    from Cons.IH[OF rest, of "d(f \<mapsto> b)"] obtain d' where
      d': "extract_loop es fs (d(f \<mapsto> b)) = Inr d'"
      and v: "\<forall>g. d' g = (if g \<in> set fs \<and> selected g
                         then (case zip_read es g of Inr b \<Rightarrow> Some b | Inl e \<Rightarrow> None)
                         else (d(f \<mapsto> b)) g)"
      by blast
    from d' b True have "extract_loop es (f # fs) d = Inr d'" by simp
    moreover from v b True have
      "\<forall>g. d' g = (if g \<in> set (f # fs) \<and> selected g
                         then (case zip_read es g of Inr b \<Rightarrow> Some b | Inl e \<Rightarrow> None)
                         else d g)"
      by auto
    ultimately show ?thesis by blast
  next
    case False
    from Cons.IH[OF rest, of d] obtain d' where
      d': "extract_loop es fs d = Inr d'"
      and v: "\<forall>g. d' g = (if g \<in> set fs \<and> selected g
                         then (case zip_read es g of Inr b \<Rightarrow> Some b | Inl e \<Rightarrow> None)
                         else d g)"
      by blast
    from d' False have "extract_loop es (f # fs) d = Inr d'" by simp
    moreover from v False have
      "\<forall>g. d' g = (if g \<in> set (f # fs) \<and> selected g
                         then (case zip_read es g of Inr b \<Rightarrow> Some b | Inl e \<Rightarrow> None)
                         else d g)"
      by auto
    ultimately show ?thesis by blast
  qed
qed

lemma extract_distinct:
  assumes "disk pptx_path = Some (Archive src)" and "distinct (namelist src)"
  shows "\<exists>d. extract_embedded_excel_files disk pptx_path = Inr d \<and>
           (\<forall>e\<in>set src. d (filename (info e)) =
              (if selected (filename (info e)) then Some (payload e) else None))"
proof -
  have "\<And>f. f \<in> set (namelist src) \<Longrightarrow> \<exists>b. zip_read src f = Inr b"
    using zip_read_distinct[OF assms(2)] by (auto simp: namelist_def)
  from extract_loop_result[OF this, of "namelist src" Map.empty] obtain d where
    d: "extract_loop src (namelist src) Map.empty = Inr d"
    and v: "\<forall>f. d f = (if f \<in> set (namelist src) \<and> selected f
                         then (case zip_read src f of Inr b \<Rightarrow> Some b | Inl e \<Rightarrow> None)
                         else None)"
    by auto
  have "\<forall>e\<in>set src. d (filename (info e)) =
              (if selected (filename (info e)) then Some (payload e) else None)"
    using v zip_read_distinct[OF assms(2)] by (auto simp: namelist_def)
  with d assms(1) show ?thesis by (simp add: extract_embedded_excel_files_def)
qed

lemma no_faults_member: "no_faults (Member i) = False"
  by (simp add: no_faults_def)

lemma payload_noop_entry: "payload (noop_entry now e) = payload e"
  by (simp add: noop_entry_def)

lemma noop_entry_names: "namelist (map (noop_entry now) src) = namelist src"
  by (induction src)
     (simp_all add: noop_entry_def namelist_def filename_new_zipinfo filename_copied_info)

text \<open>
  A copied \<^verbatim>\<open>ZipInfo\<close> is the source's exactly when the source's external attributes
  are not 0 and its seconds are even, as they are in a container read from disk.
\<close>

lemma copied_info_same:
  "copied_info zi = zi \<longleftrightarrow> external_attr zi \<noteq> 0 \<and> dos_time (date_time zi) = date_time zi"
proof
  assume "copied_info zi = zi"
  then have "external_attr (copied_info zi) = external_attr zi"
    and "date_time (copied_info zi) = date_time zi"
    by simp_all
  then show "external_attr zi \<noteq> 0 \<and> dos_time (date_time zi) = date_time zi"
    by (auto simp: copied_info_def split: if_splits)
next
  assume "external_attr zi \<noteq> 0 \<and> dos_time (date_time zi) = date_time zi"
  then show "copied_info zi = zi" by (simp add: copied_info_def)
qed

lemma copied_info_new_zipinfo: "copied_info (new_zipinfo name now) = new_zipinfo name now"
  by (cases now) (simp add: copied_info_def new_zipinfo_def dos_time_def)

lemma write_members_noop:
  assumes "\<And>e. e \<in> set items \<Longrightarrow> zip_read src (filename (info e)) = Inr (payload e)"
    and "\<And>e. e \<in> set items \<Longrightarrow> d (filename (info e)) =
              (if selected (filename (info e)) then Some (payload e) else None)"
  shows "write_members no_faults now src d items i dst = Inr (dst @ map (noop_entry now) items)"
  using assms
proof (induction items arbitrary: i dst)
  case Nil
  then show ?case by simp
next
  case (Cons item items)
  have r: "zip_read src (filename (info item)) = Inr (payload item)"
    and u: "d (filename (info item)) =
              (if selected (filename (info item)) then Some (payload item) else None)"
    using Cons.prems by simp_all
  have ih: "\<And>i dst. write_members no_faults now src d items i dst =
      Inr (dst @ map (noop_entry now) items)"
    by (rule Cons.IH) (use Cons.prems in auto)
  show ?case
    by (cases "selected (filename (info item))")
       (simp_all add: r u ih no_faults_member noop_entry_def)
qed

text \<open>
  What \<^verbatim>\<open>shutil.move\<close> leaves when the temporary file holds the rebuilt container: the
  container in place of the original and no temporary file, or an exception with the
  temporary file still there and, at \<open>pptx_path\<close>, the original, the rebuilt container,
  or, when the copy failed while writing, what is no container.
\<close>

lemma shutil_move_result:
  assumes "d temp_path = Some (Archive dst)" and "temp_path \<noteq> pptx_path"
  shows "(\<exists>d3. shutil_move faults d temp_path pptx_path = Inr d3 \<and>
                d3 = d(pptx_path \<mapsto> Archive dst, temp_path := None)) \<or>
         (\<exists>e d3. shutil_move faults d temp_path pptx_path = Inl (e, d3) \<and> faults Rename \<and>
                d3 temp_path = Some (Archive dst) \<and>
                (d3 pptx_path = d pptx_path \<or> d3 pptx_path = Some (Archive dst) \<or>
                 d3 pptx_path = Some NotArchive \<and> \<not> faults CopyOpen \<and> faults CopyWrite))"
  using assms by (simp add: shutil_move_def)

lemma handler_result:
  "d temp_path \<noteq> None \<Longrightarrow>
   handler faults temp_path d =
     (if faults Remove then (Escaped, []) else (Caught, [d(temp_path := None)]))"
  by (auto simp: handler_def)

text \<open>
  The run, state by state, for a temporary file that is new: before the move only the
  temporary file is written. When the \<^verbatim>\<open>with\<close> blocks fail, the original is still in
  place in every state, and the handler leaves the disk as it was before the call. When
  they succeed, the temporary file holds the rebuilt container; a call that ends as
  \<open>Done\<close> leaves that container in place of the original and no temporary file, and the
  call does end so when \<^verbatim>\<open>os.rename\<close> does not fail.
\<close>

lemma temporary_file_first:
  assumes "disk temp_path = None" and "temp_path \<noteq> pptx_path"
  shows "\<exists>out s1 s2 rest.
           replace_embedded_excel_files faults now temp_path disk pptx_path updated_files =
             (out, s1 # s2 # rest) \<and>
           s1 pptx_path = disk pptx_path \<and> s2 pptx_path = disk pptx_path \<and>
           (case rebuild faults now disk pptx_path updated_files of
              Inl e \<Rightarrow>
                out \<noteq> Done \<and> list_all (\<lambda>s. s pptx_path = disk pptx_path) rest \<and>
                (faults Remove \<or> last (s1 # s2 # rest) = disk)
            | Inr dst \<Rightarrow>
                s2 temp_path = Some (Archive dst) \<and>
                (faults Rename \<or> out = Done) \<and>
                (out \<noteq> Done \<or> last (s1 # s2 # rest) = disk(pptx_path \<mapsto> Archive dst)) \<and>
                list_all (\<lambda>s. s pptx_path = disk pptx_path \<or>
                               s pptx_path = Some (Archive dst) \<or>
                               s pptx_path = Some NotArchive \<and> faults Rename \<and>
                               \<not> faults CopyOpen \<and> faults CopyWrite) rest)"
proof -
  let ?disk1 = "disk(temp_path \<mapsto> NotArchive)"
  have rb: "rebuild faults now ?disk1 pptx_path updated_files =
      rebuild faults now disk pptx_path updated_files"
    using assms(2) by (intro rebuild_reads_pptx_path_only) simp
  show ?thesis
  proof (cases "rebuild faults now disk pptx_path updated_files")
    case (Inl e)
    obtain err partial where e: "e = (err, partial)" by (cases e)
    let ?disk2 = "?disk1(temp_path \<mapsto> partial)"
    have restore: "?disk2(temp_path := None) = disk"
      using assms(1) by (auto simp: fun_eq_iff)
    have h: "handler faults temp_path ?disk2 =
        (if faults Remove then (Escaped, []) else (Caught, [?disk2(temp_path := None)]))"
      by (rule handler_result) simp
    have run: "replace_embedded_excel_files faults now temp_path disk pptx_path updated_files =
        (if faults Remove then (Escaped, [?disk1, ?disk2]) else (Caught, [?disk1, ?disk2, disk]))"
      unfolding replace_embedded_excel_files_def Let_def rb Inl e using h restore by simp
    show ?thesis
      unfolding run Inl using assms(2) by (cases "faults Remove") simp_all
  next
    case (Inr dst)
    let ?disk2 = "?disk1(temp_path \<mapsto> Archive dst)"
    have t2: "?disk2 temp_path = Some (Archive dst)" by simp
    have p2: "?disk2 pptx_path = disk pptx_path" using assms(2) by simp
    have fin: "?disk2(pptx_path \<mapsto> Archive dst, temp_path := None) =
        disk(pptx_path \<mapsto> Archive dst)"
      using assms by (auto simp: fun_eq_iff)
    from shutil_move_result[where d = ?disk2 and temp_path = temp_path and dst = dst
           and pptx_path = pptx_path and faults = faults, OF t2 assms(2)]
    show ?thesis
    proof
      assume "\<exists>d3. shutil_move faults ?disk2 temp_path pptx_path = Inr d3 \<and>
                d3 = ?disk2(pptx_path \<mapsto> Archive dst, temp_path := None)"
      then have mv: "shutil_move faults ?disk2 temp_path pptx_path =
          Inr (disk(pptx_path \<mapsto> Archive dst))"
        using fin by simp
      have run: "replace_embedded_excel_files faults now temp_path disk pptx_path updated_files =
          (Done, [?disk1, ?disk2, disk(pptx_path \<mapsto> Archive dst)])"
        unfolding replace_embedded_excel_files_def Let_def rb Inr using mv by simp
      show ?thesis
        unfolding run Inr using assms(2) by simp
    next
      assume "\<exists>e d3. shutil_move faults ?disk2 temp_path pptx_path = Inl (e, d3) \<and>
                faults Rename \<and> d3 temp_path = Some (Archive dst) \<and>
                (d3 pptx_path = ?disk2 pptx_path \<or> d3 pptx_path = Some (Archive dst) \<or>
                 d3 pptx_path = Some NotArchive \<and> \<not> faults CopyOpen \<and> faults CopyWrite)"
      then obtain e d3 where
        mv: "shutil_move faults ?disk2 temp_path pptx_path = Inl (e, d3)"
        and rn: "faults Rename"
        and t3: "d3 temp_path = Some (Archive dst)"
        and p3: "d3 pptx_path = disk pptx_path \<or> d3 pptx_path = Some (Archive dst) \<or>
                 d3 pptx_path = Some NotArchive \<and> \<not> faults CopyOpen \<and> faults CopyWrite"
        using p2 by auto
      have h: "handler faults temp_path d3 =
          (if faults Remove then (Escaped, []) else (Caught, [d3(temp_path := None)]))"
        by (rule handler_result) (simp add: t3)
      have run: "replace_embedded_excel_files faults now temp_path disk pptx_path updated_files =
          (if faults Remove then (Escaped, [?disk1, ?disk2, d3])
           else (Caught, [?disk1, ?disk2, d3, d3(temp_path := None)]))"
        unfolding replace_embedded_excel_files_def Let_def rb Inr using mv h by simp
      show ?thesis
        unfolding run Inr using assms(2) rn p3 by (cases "faults Remove") auto
    qed
  qed
qed

text \<open>
  Claim C5 as stated (a no-op update leaves every entry, metadata included, identical)
  fails. In a container with an embedded spreadsheet stored without compression and one
  other entry, both dated 1980 and with external attributes 0, the spreadsheet comes back
  deflated, dated with the time of the call and with the attributes \<^verbatim>\<open>0o600 << 16\<close>,
  and the other entry, copied with its own \<^verbatim>\<open>ZipInfo\<close>, comes back with the attributes
  \<^verbatim>\<open>0o600 << 16\<close> too.
\<close>

theorem C5_noop_update_counterexample:
  "map_sum id (\<lambda>r. last (snd r) ''deck.pptx'')
     (extract_then_substitute no_faults (2026, 1, 1, 0, 0, 0) ''tmp.pptx''
        [''deck.pptx'' \<mapsto>
           Archive [\<lparr>info = \<lparr>filename = ''ppt/embeddings/a.xlsx'', date_time = (1980, 1, 1, 0, 0, 0),
                             compress_type = ZIP_STORED, comment = [], extra = [],
                             external_attr = 0\<rparr>,
                     payload = [80, 75]\<rparr>,
                    \<lparr>info = \<lparr>filename = ''docProps/app.xml'', date_time = (1980, 1, 1, 0, 0, 0),
                             compress_type = ZIP_DEFLATED, comment = [], extra = [],
                             external_attr = 0\<rparr>,
                     payload = [60]\<rparr>]]
        ''deck.pptx'') =
   Inr (Some (Archive
     [\<lparr>info = \<lparr>filename = ''ppt/embeddings/a.xlsx'', date_time = (2026, 1, 1, 0, 0, 0),
                compress_type = ZIP_DEFLATED, comment = [], extra = [],
                external_attr = 25165824\<rparr>,
        payload = [80, 75]\<rparr>,
      \<lparr>info = \<lparr>filename = ''docProps/app.xml'', date_time = (1980, 1, 1, 0, 0, 0),
                compress_type = ZIP_DEFLATED, comment = [], extra = [],
                external_attr = 25165824\<rparr>,
        payload = [60]\<rparr>])) \<and>
   map_sum id (\<lambda>r. last (snd r) ''deck.pptx'')
     (extract_then_substitute no_faults (2026, 1, 1, 0, 0, 0) ''tmp.pptx''
        [''deck.pptx'' \<mapsto>
           Archive [\<lparr>info = \<lparr>filename = ''ppt/embeddings/a.xlsx'', date_time = (1980, 1, 1, 0, 0, 0),
                             compress_type = ZIP_STORED, comment = [], extra = [],
                             external_attr = 0\<rparr>,
                     payload = [80, 75]\<rparr>,
                    \<lparr>info = \<lparr>filename = ''docProps/app.xml'', date_time = (1980, 1, 1, 0, 0, 0),
                             compress_type = ZIP_DEFLATED, comment = [], extra = [],
                             external_attr = 0\<rparr>,
                     payload = [60]\<rparr>]]
        ''deck.pptx'') \<noteq>
   Inr (Some (Archive
     [\<lparr>info = \<lparr>filename = ''ppt/embeddings/a.xlsx'', date_time = (1980, 1, 1, 0, 0, 0),
                compress_type = ZIP_STORED, comment = [], extra = [],
                external_attr = 0\<rparr>,
        payload = [80, 75]\<rparr>,
      \<lparr>info = \<lparr>filename = ''docProps/app.xml'', date_time = (1980, 1, 1, 0, 0, 0),
                compress_type = ZIP_DEFLATED, comment = [], extra = [],
                external_attr = 0\<rparr>,
        payload = [60]\<rparr>]))"
proof -
  have sa: "selected ''ppt/embeddings/a.xlsx''" by code_simp
  have sb: "\<not> selected ''docProps/app.xml''" by code_simp
  have dir: "\<not> endswith ''ppt/embeddings/a.xlsx'' ''/''" by code_simp
  show ?thesis
    by (simp add: extract_then_substitute_def extract_embedded_excel_files_def namelist_def
          zip_read_def sa sb dir replace_embedded_excel_files_def rebuild_def shutil_move_def
          no_faults_def Let_def new_zipinfo_def copied_info_def dos_time_def)
qed

text \<open>
  With two entries of one name, \<^verbatim>\<open>src_zip.read(item.filename)\<close> gives the payload of
  the last one for both; the theorem for C5 is about containers whose names are
  distinct.
\<close>

lemma noop_update_with_duplicate_names:
  "map_sum id (\<lambda>r. last (snd r) ''deck.pptx'')
     (extract_then_substitute no_faults (2026, 1, 1, 0, 0, 0) ''tmp.pptx''
        [''deck.pptx'' \<mapsto>
           Archive [\<lparr>info = \<lparr>filename = ''docProps/app.xml'', date_time = (1980, 1, 1, 0, 0, 0),
                             compress_type = ZIP_DEFLATED, comment = [], extra = [],
                             external_attr = 25165824\<rparr>,
                     payload = [1]\<rparr>,
                    \<lparr>info = \<lparr>filename = ''docProps/app.xml'', date_time = (1980, 1, 1, 0, 0, 0),
                             compress_type = ZIP_DEFLATED, comment = [], extra = [],
                             external_attr = 25165824\<rparr>,
                     payload = [2]\<rparr>]]
        ''deck.pptx'') =
   Inr (Some (Archive
     [\<lparr>info = \<lparr>filename = ''docProps/app.xml'', date_time = (1980, 1, 1, 0, 0, 0),
                compress_type = ZIP_DEFLATED, comment = [], extra = [],
                external_attr = 25165824\<rparr>,
        payload = [2]\<rparr>,
      \<lparr>info = \<lparr>filename = ''docProps/app.xml'', date_time = (1980, 1, 1, 0, 0, 0),
                compress_type = ZIP_DEFLATED, comment = [], extra = [],
                external_attr = 25165824\<rparr>,
        payload = [2]\<rparr>]))"
proof -
  have sel: "\<not> selected ''docProps/app.xml''" by code_simp
  show ?thesis
    by (simp add: extract_then_substitute_def extract_embedded_excel_files_def namelist_def
          zip_read_def sel replace_embedded_excel_files_def rebuild_def shutil_move_def
          no_faults_def Let_def copied_info_def dos_time_def)
qed

text \<open>
  Claim C5, amended. For a container whose entry names are distinct, Extract followed at
  once by Substitute with the extracted bytes, when no step fails, leaves in place of the
  container one with the same names in the same order and the same payloads. An entry
  that is not an embedded spreadsheet keeps the metadata of the source, but external
  attributes that are 0 come back as \<^verbatim>\<open>0o600 << 16\<close>; an embedded spreadsheet has the
  metadata of a newly written entry. (Times are as the container stores them, to two
  seconds.)
\<close>

theorem C5_noop_update_keeps_names_payloads_and_copied_metadata:
  assumes "disk pptx_path = Some (Archive src)"
    and "distinct (namelist src)"
    and "disk temp_path = None"
  shows "\<exists>states dst.
           extract_then_substitute no_faults now temp_path disk pptx_path = Inr (Done, states) \<and>
           last states = disk(pptx_path \<mapsto> Archive dst) \<and>
           namelist dst = namelist src \<and>
           map payload dst = map payload src \<and>
           dst = map (\<lambda>e. if selected (filename (info e))
                           then \<lparr>info = new_zipinfo (filename (info e)) now, payload = payload e\<rparr>
                           else \<lparr>info = (info e)\<lparr>date_time := dos_time (date_time (info e)),
                                      external_attr := (if external_attr (info e) = 0 then 25165824
                                                        else external_attr (info e))\<rparr>,
                                 payload = payload e\<rparr>) src"
proof -
  from assms(1,3) have ne: "temp_path \<noteq> pptx_path" by auto
  from extract_distinct[of disk pptx_path src, OF assms(1,2)] obtain d where
    ex: "extract_embedded_excel_files disk pptx_path = Inr d"
    and d: "\<forall>e\<in>set src. d (filename (info e)) =
              (if selected (filename (info e)) then Some (payload e) else None)"
    by blast
  have wm: "write_members no_faults now src d src 0 [] = Inr ([] @ map (noop_entry now) src)"
    by (rule write_members_noop) (use d zip_read_distinct[OF assms(2)] in auto)
  have rb: "rebuild no_faults now disk pptx_path d = Inr (map (noop_entry now) src)"
    using assms(1) wm by (simp add: rebuild_def no_faults_def)
  have nf: "\<not> no_faults Rename" by (simp add: no_faults_def)
  from temporary_file_first[where disk = disk and temp_path = temp_path
         and pptx_path = pptx_path and faults = no_faults and now = now
         and updated_files = d, OF assms(3) ne]
  obtain out s1 s2 rest where
    run: "replace_embedded_excel_files no_faults now temp_path disk pptx_path d =
            (out, s1 # s2 # rest)"
    and out: "out = Done"
    and fin: "last (s1 # s2 # rest) = disk(pptx_path \<mapsto> Archive (map (noop_entry now) src))"
    unfolding rb using nf by auto
  have shape: "map (noop_entry now) src =
      map (\<lambda>e. if selected (filename (info e))
                then \<lparr>info = new_zipinfo (filename (info e)) now, payload = payload e\<rparr>
                else \<lparr>info = (info e)\<lparr>date_time := dos_time (date_time (info e)),
                           external_attr := (if external_attr (info e) = 0 then 25165824
                                             else external_attr (info e))\<rparr>,
                      payload = payload e\<rparr>) src"
    by (simp add: noop_entry_def copied_info_def)
  have pl: "map payload (map (noop_entry now) src) = map payload src"
    by (simp add: payload_noop_entry)
  have "extract_then_substitute no_faults now temp_path disk pptx_path =
      Inr (Done, s1 # s2 # rest)"
    using run out by (simp add: extract_then_substitute_def ex)
  with fin noop_entry_names[of now src] pl shape show ?thesis by blast
qed

theorem C5_noop_update_witness:
  "distinct (namelist
     [\<lparr>info = \<lparr>filename = ''ppt/embeddings/a.xlsx'', date_time = (1980, 1, 1, 0, 0, 0),
                compress_type = ZIP_STORED, comment = [], extra = [], external_attr = 0\<rparr>,
        payload = [80, 75]\<rparr>,
      \<lparr>info = \<lparr>filename = ''docProps/app.xml'', date_time = (1980, 1, 1, 0, 0, 0),
                compress_type = ZIP_DEFLATED, comment = [], extra = [], external_attr = 0\<rparr>,
        payload = [60]\<rparr>]) \<and>
   (\<exists>states dst.
      extract_then_substitute no_faults (2026, 1, 1, 0, 0, 1) ''tmp.pptx''
        [''deck.pptx'' \<mapsto>
           Archive [\<lparr>info = \<lparr>filename = ''ppt/embeddings/a.xlsx'', date_time = (1980, 1, 1, 0, 0, 0),
                             compress_type = ZIP_STORED, comment = [], extra = [],
                             external_attr = 0\<rparr>,
                     payload = [80, 75]\<rparr>,
                    \<lparr>info = \<lparr>filename = ''docProps/app.xml'', date_time = (1980, 1, 1, 0, 0, 0),
                             compress_type = ZIP_DEFLATED, comment = [], extra = [],
                             external_attr = 0\<rparr>,
                     payload = [60]\<rparr>]]
        ''deck.pptx'' = Inr (Done, states) \<and>
      last states ''deck.pptx'' = Some (Archive dst) \<and>
      last states ''tmp.pptx'' = None \<and>
      dst =
        [\<lparr>info = \<lparr>filename = ''ppt/embeddings/a.xlsx'', date_time = (2026, 1, 1, 0, 0, 0),
                   compress_type = ZIP_DEFLATED, comment = [], extra = [],
                   external_attr = 25165824\<rparr>,
           payload = [80, 75]\<rparr>,
         \<lparr>info = \<lparr>filename = ''docProps/app.xml'', date_time = (1980, 1, 1, 0, 0, 0),
                   compress_type = ZIP_DEFLATED, comment = [], extra = [],
                   external_attr = 25165824\<rparr>,
           payload = [60]\<rparr>])"
proof -
  let ?a = "\<lparr>info = \<lparr>filename = ''ppt/embeddings/a.xlsx'', date_time = (1980, 1, 1, 0, 0, 0),
                compress_type = ZIP_STORED, comment = [], extra = [], external_attr = 0\<rparr>,
        payload = [80, 75]\<rparr>"
  let ?b = "\<lparr>info = \<lparr>filename = ''docProps/app.xml'', date_time = (1980, 1, 1, 0, 0, 0),
                compress_type = ZIP_DEFLATED, comment = [], extra = [], external_attr = 0\<rparr>,
        payload = [60]\<rparr>"
  let ?disk = "[''deck.pptx'' \<mapsto> Archive [?a, ?b]]"
  have h1: "?disk ''deck.pptx'' = Some (Archive [?a, ?b])" by simp
  have h2: "distinct (namelist [?a, ?b])" by (simp add: namelist_def)
  have h3: "?disk ''tmp.pptx'' = None" by simp
  have sa: "selected ''ppt/embeddings/a.xlsx''" by code_simp
  have sb: "\<not> selected ''docProps/app.xml''" by code_simp
  have dir: "\<not> endswith ''ppt/embeddings/a.xlsx'' ''/''" by code_simp
  from C5_noop_update_keeps_names_payloads_and_copied_metadata
         [where disk = ?disk and pptx_path = "''deck.pptx''" and src = "[?a, ?b]"
            and temp_path = "''tmp.pptx''" and now = "(2026, 1, 1, 0, 0, 1)", OF h1 h2 h3]
  obtain states dst where
    r: "extract_then_substitute no_faults (2026, 1, 1, 0, 0, 1) ''tmp.pptx'' ?disk ''deck.pptx'' =
          Inr (Done, states)"
    and l: "last states = ?disk(''deck.pptx'' \<mapsto> Archive dst)"
    and d: "dst = map (\<lambda>e. if selected (filename (info e))
                           then \<lparr>info = new_zipinfo (filename (info e)) (2026, 1, 1, 0, 0, 1),
                                 payload = payload e\<rparr>
                           else \<lparr>info = (info e)\<lparr>date_time := dos_time (date_time (info e)),
                                      external_attr := (if external_attr (info e) = 0 then 25165824
                                                        else external_attr (info e))\<rparr>,
                                 payload = payload e\<rparr>) [?a, ?b]"
    by blast
  from d have "dst =
        [\<lparr>info = \<lparr>filename = ''ppt/embeddings/a.xlsx'', date_time = (2026, 1, 1, 0, 0, 0),
                   compress_type = ZIP_DEFLATED, comment = [], extra = [],
                   external_attr = 25165824\<rparr>,
           payload = [80, 75]\<rparr>,
         \<lparr>info = \<lparr>filename = ''docProps/app.xml'', date_time = (1980, 1, 1, 0, 0, 0),
                   compress_type = ZIP_DEFLATED, comment = [], extra = [],
                   external_attr = 25165824\<rparr>,
           payload = [60]\<rparr>]"
    by (simp add: sa sb dir new_zipinfo_def dos_time_def)
  with r l h2 show ?thesis by simp
qed

text \<open>
  Claim C6 (temporary file first, original untouched on any failure). The claim: the
  rebuilt container is written to a temporary file first, on success it replaces the
  original atomically, and on any failure the temporary file is discarded and the
  original is left untouched, so that no partial container is ever in its place. The
  code writes the temporary file first and removes it in its handler, but it replaces the
  original with \<^verbatim>\<open>shutil.move\<close>: when \<^verbatim>\<open>os.rename\<close> fails, the move copies the
  temporary file over the original, and a copy that fails while writing is caught by the
  handler with the original already gone. For a container with one embedded spreadsheet
  and an update of it, with a rename that fails and a copy that fails while writing, the
  states of \<^verbatim>\<open>deck.pptx\<close> and of the temporary file are: the original and an empty
  file; the original and the rebuilt container; no container and the rebuilt container;
  no container and no temporary file.
\<close>

theorem C6_failed_copy_leaves_no_container:
  "map_prod id (map (\<lambda>s. (s ''deck.pptx'', s ''tmp.pptx'')))
     (replace_embedded_excel_files (\<lambda>s. s = Rename \<or> s = CopyWrite) (2026, 1, 1, 0, 0, 0)
        ''tmp.pptx''
        [''deck.pptx'' \<mapsto>
           Archive [\<lparr>info = new_zipinfo ''ppt/embeddings/a.xlsx'' (1980, 1, 1, 0, 0, 0),
                     payload = [80, 75]\<rparr>]]
        ''deck.pptx'' [''ppt/embeddings/a.xlsx'' \<mapsto> [1, 2, 3]]) =
   (Caught,
    [(Some (Archive [\<lparr>info = new_zipinfo ''ppt/embeddings/a.xlsx'' (1980, 1, 1, 0, 0, 0),
                     payload = [80, 75]\<rparr>]),
      Some NotArchive),
     (Some (Archive [\<lparr>info = new_zipinfo ''ppt/embeddings/a.xlsx'' (1980, 1, 1, 0, 0, 0),
                     payload = [80, 75]\<rparr>]),
      Some (Archive [\<lparr>info = new_zipinfo ''ppt/embeddings/a.xlsx'' (2026, 1, 1, 0, 0, 0),
                     payload = [1, 2, 3]\<rparr>])),
     (Some NotArchive,
      Some (Archive [\<lparr>info = new_zipinfo ''ppt/embeddings/a.xlsx'' (2026, 1, 1, 0, 0, 0),
                     payload = [1, 2, 3]\<rparr>])),
     (Some NotArchive, None)])"
  by (simp add: replace_embedded_excel_files_def rebuild_def filename_new_zipinfo
        shutil_move_def handler_def Let_def)

text \<open>
  Claim C10 (names and order). For every source container, every dictionary of updates
  and whatever steps fail: the rebuilt container has the names of the source in the
  order of the source; every container found at \<open>pptx_path\<close> in any state of the run
  has them; and unless the copy of a failed rename fails while writing, the file at
  \<open>pptx_path\<close> after the call is such a container. The call does the same, state by
  state, as with the dictionary cut down to the names of the source: a key that names no
  entry changes nothing and raises nothing.
\<close>

theorem C10_entry_names_and_order_are_preserved:
  assumes "disk pptx_path = Some (Archive src)" and "disk temp_path = None"
  shows "(\<forall>dst. rebuild faults now disk pptx_path updated_files = Inr dst \<longrightarrow>
            namelist dst = namelist src) \<and>
         (\<forall>s\<in>set (snd (replace_embedded_excel_files faults now temp_path disk pptx_path
                            updated_files)).
            \<forall>es. s pptx_path = Some (Archive es) \<longrightarrow> namelist es = namelist src) \<and>
         (\<not> (faults Rename \<and> \<not> faults CopyOpen \<and> faults CopyWrite) \<longrightarrow>
            (\<exists>dst. last (snd (replace_embedded_excel_files faults now temp_path disk pptx_path
                                 updated_files)) pptx_path = Some (Archive dst) \<and>
                   namelist dst = namelist src)) \<and>
         replace_embedded_excel_files faults now temp_path disk pptx_path
           (updated_files |` set (namelist src)) =
         replace_embedded_excel_files faults now temp_path disk pptx_path updated_files"
proof (intro conjI)
  from assms have ne: "temp_path \<noteq> pptx_path" by auto
  let ?disk1 = "disk(temp_path \<mapsto> NotArchive)"
  have src1: "?disk1 pptx_path = Some (Archive src)" using assms(1) ne by simp
  have names: "\<And>dst. rebuild faults now disk pptx_path updated_files = Inr dst \<Longrightarrow>
      namelist dst = namelist src"
    using rebuild_names assms(1) by fastforce
  show "\<forall>dst. rebuild faults now disk pptx_path updated_files = Inr dst \<longrightarrow>
            namelist dst = namelist src"
    using names by blast
  from temporary_file_first[where disk = disk and temp_path = temp_path
         and pptx_path = pptx_path and faults = faults and now = now
         and updated_files = updated_files, OF assms(2) ne]
  obtain out s1 s2 rest where
    run: "replace_embedded_excel_files faults now temp_path disk pptx_path updated_files =
            (out, s1 # s2 # rest)"
    and p1: "s1 pptx_path = disk pptx_path" and p2: "s2 pptx_path = disk pptx_path"
    and c: "case rebuild faults now disk pptx_path updated_files of
              Inl e \<Rightarrow>
                out \<noteq> Done \<and> list_all (\<lambda>s. s pptx_path = disk pptx_path) rest \<and>
                (faults Remove \<or> last (s1 # s2 # rest) = disk)
            | Inr dst \<Rightarrow>
                s2 temp_path = Some (Archive dst) \<and>
                (faults Rename \<or> out = Done) \<and>
                (out \<noteq> Done \<or> last (s1 # s2 # rest) = disk(pptx_path \<mapsto> Archive dst)) \<and>
                list_all (\<lambda>s. s pptx_path = disk pptx_path \<or>
                               s pptx_path = Some (Archive dst) \<or>
                               s pptx_path = Some NotArchive \<and> faults Rename \<and>
                               \<not> faults CopyOpen \<and> faults CopyWrite) rest"
    by blast
  have every: "\<And>s. s \<in> set (s1 # s2 # rest) \<Longrightarrow>
      s pptx_path = Some (Archive src) \<or>
      (\<exists>dst. s pptx_path = Some (Archive dst) \<and> namelist dst = namelist src) \<or>
      s pptx_path = Some NotArchive \<and> faults Rename \<and> \<not> faults CopyOpen \<and> faults CopyWrite"
  proof (cases "rebuild faults now disk pptx_path updated_files")
    case (Inl e)
    fix s assume "s \<in> set (s1 # s2 # rest)"
    with c Inl p1 p2 assms(1) show "s pptx_path = Some (Archive src) \<or>
      (\<exists>dst. s pptx_path = Some (Archive dst) \<and> namelist dst = namelist src) \<or>
      s pptx_path = Some NotArchive \<and> faults Rename \<and> \<not> faults CopyOpen \<and> faults CopyWrite"
      by (auto simp: list_all_iff)
  next
    case (Inr dst)
    fix s assume "s \<in> set (s1 # s2 # rest)"
    with c Inr p1 p2 assms(1) names[OF Inr] show "s pptx_path = Some (Archive src) \<or>
      (\<exists>dst. s pptx_path = Some (Archive dst) \<and> namelist dst = namelist src) \<or>
      s pptx_path = Some NotArchive \<and> faults Rename \<and> \<not> faults CopyOpen \<and> faults CopyWrite"
      by (auto simp: list_all_iff)
  qed
  show "\<forall>s\<in>set (snd (replace_embedded_excel_files faults now temp_path disk pptx_path
                            updated_files)).
            \<forall>es. s pptx_path = Some (Archive es) \<longrightarrow> namelist es = namelist src"
    unfolding run using every by fastforce
  show "\<not> (faults Rename \<and> \<not> faults CopyOpen \<and> faults CopyWrite) \<longrightarrow>
            (\<exists>dst. last (snd (replace_embedded_excel_files faults now temp_path disk pptx_path
                                 updated_files)) pptx_path = Some (Archive dst) \<and>
                   namelist dst = namelist src)"
  proof
    assume nc: "\<not> (faults Rename \<and> \<not> faults CopyOpen \<and> faults CopyWrite)"
    have "last (s1 # s2 # rest) \<in> set (s1 # s2 # rest)" by (rule last_in_set) simp
    from every[OF this] nc show "\<exists>dst. last (snd (replace_embedded_excel_files faults now
        temp_path disk pptx_path updated_files)) pptx_path = Some (Archive dst) \<and>
        namelist dst = namelist src"
      unfolding run by auto
  qed
  show "replace_embedded_excel_files faults now temp_path disk pptx_path
           (updated_files |` set (namelist src)) =
         replace_embedded_excel_files faults now temp_path disk pptx_path updated_files"
    by (simp add: replace_embedded_excel_files_def
          rebuild_restrict[of ?disk1 pptx_path src, OF src1])
qed

theorem C10_entry_names_witness:
  "rebuild no_faults (2026, 1, 1, 0, 0, 0)
     [''deck.pptx'' \<mapsto>
        Archive [\<lparr>info = new_zipinfo ''ppt/embeddings/a.xlsx'' (1980, 1, 1, 0, 0, 0),
                  payload = [80, 75]\<rparr>]]
     ''deck.pptx'' [''ppt/embeddings/missing.xlsx'' \<mapsto> [7]] =
     Inr [\<lparr>info = new_zipinfo ''ppt/embeddings/a.xlsx'' (1980, 1, 1, 0, 0, 0),
           payload = [80, 75]\<rparr>] \<and>
   list_all (\<lambda>s. \<exists>es. s ''deck.pptx'' = Some (Archive es) \<and>
                       namelist es = [''ppt/embeddings/a.xlsx''])
     (snd (replace_embedded_excel_files no_faults (2026, 1, 1, 0, 0, 0) ''tmp.pptx''
             [''deck.pptx'' \<mapsto>
                Archive [\<lparr>info = new_zipinfo ''ppt/embeddings/a.xlsx'' (1980, 1, 1, 0, 0, 0),
                          payload = [80, 75]\<rparr>]]
             ''deck.pptx'' [''ppt/embeddings/missing.xlsx'' \<mapsto> [7]])) \<and>
   (\<exists>dst. last (snd (replace_embedded_excel_files no_faults (2026, 1, 1, 0, 0, 0) ''tmp.pptx''
                       [''deck.pptx'' \<mapsto>
                          Archive [\<lparr>info = new_zipinfo ''ppt/embeddings/a.xlsx'' (1980, 1, 1, 0, 0, 0),
                                    payload = [80, 75]\<rparr>]]
                       ''deck.pptx'' [''ppt/embeddings/missing.xlsx'' \<mapsto> [7]]))
             ''deck.pptx'' = Some (Archive dst) \<and>
          namelist dst = [''ppt/embeddings/a.xlsx'']) \<and>
   replace_embedded_excel_files no_faults (2026, 1, 1, 0, 0, 0) ''tmp.pptx''
     [''deck.pptx'' \<mapsto>
        Archive [\<lparr>info = new_zipinfo ''ppt/embeddings/a.xlsx'' (1980, 1, 1, 0, 0, 0),
                  payload = [80, 75]\<rparr>]]
     ''deck.pptx''
     ([''ppt/embeddings/missing.xlsx'' \<mapsto> [7]] |` set [''ppt/embeddings/a.xlsx'']) =
   replace_embedded_excel_files no_faults (2026, 1, 1, 0, 0, 0) ''tmp.pptx''
     [''deck.pptx'' \<mapsto>
        Archive [\<lparr>info = new_zipinfo ''ppt/embeddings/a.xlsx'' (1980, 1, 1, 0, 0, 0),
                  payload = [80, 75]\<rparr>]]
     ''deck.pptx'' [''ppt/embeddings/missing.xlsx'' \<mapsto> [7]]"
proof -
  let ?e = "\<lparr>info = new_zipinfo ''ppt/embeddings/a.xlsx'' (1980, 1, 1, 0, 0, 0),
             payload = [80, 75]\<rparr>"
  let ?src = "[?e]"
  let ?disk = "[''deck.pptx'' \<mapsto> Archive ?src]"
  let ?upd = "[''ppt/embeddings/missing.xlsx'' \<mapsto> [7 :: 8 word]]"
  have h1: "?disk ''deck.pptx'' = Some (Archive ?src)" by simp
  have h2: "?disk ''tmp.pptx'' = None" by simp
  have n: "namelist ?src = [''ppt/embeddings/a.xlsx'']"
    by (simp add: namelist_def filename_new_zipinfo)
  have nf: "\<not> (no_faults Rename \<and> \<not> no_faults CopyOpen \<and> no_faults CopyWrite)"
    by (simp add: no_faults_def)
  note same = copied_info_new_zipinfo
  have rb: "rebuild no_faults (2026, 1, 1, 0, 0, 0) ?disk ''deck.pptx'' ?upd = Inr ?src"
    by (simp add: rebuild_def no_faults_def filename_new_zipinfo zip_read_def same)
  note t = C10_entry_names_and_order_are_preserved
         [where disk = ?disk and temp_path = "''tmp.pptx''"
            and pptx_path = "''deck.pptx''" and src = ?src and faults = no_faults
            and now = "(2026, 1, 1, 0, 0, 0)" and updated_files = ?upd, OF h1 h2]
  from t have a: "list_all (\<lambda>s. \<forall>es. s ''deck.pptx'' = Some (Archive es) \<longrightarrow>
                       namelist es = [''ppt/embeddings/a.xlsx''])
     (snd (replace_embedded_excel_files no_faults (2026, 1, 1, 0, 0, 0) ''tmp.pptx'' ?disk
             ''deck.pptx'' ?upd))"
    unfolding n list_all_iff by blast
  have some: "list_all (\<lambda>s. \<exists>es. s ''deck.pptx'' = Some (Archive es))
     (snd (replace_embedded_excel_files no_faults (2026, 1, 1, 0, 0, 0) ''tmp.pptx'' ?disk
             ''deck.pptx'' ?upd))"
    by (simp add: replace_embedded_excel_files_def Let_def rb[simplified] rebuild_def
          no_faults_def filename_new_zipinfo zip_read_def same shutil_move_def)
  from a some have a': "list_all (\<lambda>s. \<exists>es. s ''deck.pptx'' = Some (Archive es) \<and>
                       namelist es = [''ppt/embeddings/a.xlsx''])
     (snd (replace_embedded_excel_files no_faults (2026, 1, 1, 0, 0, 0) ''tmp.pptx'' ?disk
             ''deck.pptx'' ?upd))"
    unfolding list_all_iff by blast
  from t nf have b: "\<exists>dst. last (snd (replace_embedded_excel_files no_faults (2026, 1, 1, 0, 0, 0)
        ''tmp.pptx'' ?disk ''deck.pptx'' ?upd)) ''deck.pptx'' = Some (Archive dst) \<and>
      namelist dst = [''ppt/embeddings/a.xlsx'']"
    unfolding n by blast
  from t have c: "replace_embedded_excel_files no_faults (2026, 1, 1, 0, 0, 0) ''tmp.pptx''
       ?disk ''deck.pptx'' (?upd |` set [''ppt/embeddings/a.xlsx'']) =
     replace_embedded_excel_files no_faults (2026, 1, 1, 0, 0, 0) ''tmp.pptx''
       ?disk ''deck.pptx'' ?upd"
    unfolding n by blast
  from rb a' b c show ?thesis by blast
qed

end
